theory Spec2Isabelle
  imports Complex_Main
begin

section \<open>Errors\<close>

text \<open>
  The exceptions the modelled code raises or lets through. \<open>ProviderRateLimitError\<close>
  carries its optional \<open>retry_after\<close> hint (errors.py); \<open>RecursionError\<close> is what
  the interpreter raises when the call stack is exhausted. \<open>FileNotFoundError\<close> and
  \<open>PermissionError\<close> are subclasses of \<open>OSError\<close>.
\<close>

datatype error =
    ValueError
  | TypeError
  | KeyError
  | IndexError
  | OverflowError
  | OSError
  | FileNotFoundError
  | PermissionError
  | RecursionError
  | AudioDeviceError
  | ProviderAuthError
  | ProviderConnectionError
  | ProviderNetworkError
  | ProviderRateLimitError "rat option"

section \<open>chunker.py\<close>

text \<open>
  A Python \<open>str\<close> is modelled as a \<open>string\<close> whose characters are the code points
  below 256; \<open>length\<close> is Python's \<open>len\<close>. \<open>isspace\<close> is \<open>str.isspace\<close> on that
  range, which is also what \<open>str.split()\<close>, \<open>str.strip()\<close> and the regular
  expression class \<open>\s\<close> use.
\<close>

definition isspace :: "char \<Rightarrow> bool" where
  "isspace c = ((of_char c :: nat) \<in> {9, 10, 11, 12, 13, 28, 29, 30, 31, 32, 133, 160})"

text \<open>\<open>text.strip()\<close>\<close>

definition strip :: "string \<Rightarrow> string" where
  "strip s = rev (dropWhile isspace (rev (dropWhile isspace s)))"

text \<open>\<open>text.split()\<close>: the maximal runs of non-whitespace characters, \<open>cur\<close> being
  the run read so far.\<close>

fun split_ws :: "string \<Rightarrow> string \<Rightarrow> string list" where
  "split_ws cur [] = (if cur = [] then [] else [cur])"
| "split_ws cur (c # cs) =
     (if isspace c then (if cur = [] then split_ws [] cs else cur # split_ws [] cs)
      else split_ws (cur @ [c]) cs)"

text \<open>\<open>sep.join(parts)\<close>\<close>

fun join :: "string \<Rightarrow> string list \<Rightarrow> string" where
  "join sep [] = []"
| "join sep [x] = x"
| "join sep (x # y # ys) = x @ sep @ join sep (y # ys)"

definition normalize_whitespace :: "string \<Rightarrow> string" where
  "normalize_whitespace text = join '' '' (split_ws [] (strip text))"

text \<open>
  \<open>SENTENCE_SPLIT_REGEX.split(normalized)\<close> for the pattern \<open>(?<=[.!?])\s+\<close>: a
  separator is a maximal run of whitespace whose first character follows one of
  \<open>.\<close>, \<open>!\<close>, \<open>?\<close>. The scan keeps whether the previous character was such a
  terminator (\<open>after_term\<close>), whether it is inside a separator (\<open>in_sep\<close>), and the
  segment read so far (\<open>cur\<close>).
\<close>

fun sentence_split :: "bool \<Rightarrow> bool \<Rightarrow> string \<Rightarrow> string \<Rightarrow> string list" where
  "sentence_split after_term in_sep cur [] = [cur]"
| "sentence_split after_term in_sep cur (c # cs) =
     (if isspace c \<and> in_sep then sentence_split False True cur cs
      else if isspace c \<and> after_term then cur # sentence_split False True [] cs
      else sentence_split (c \<in> set ''.!?'') False (cur @ [c]) cs)"

text \<open>\<open>sentence.split(" ")\<close>: split at every single space, keeping empty pieces.\<close>

fun split_space :: "string \<Rightarrow> string \<Rightarrow> string list" where
  "split_space cur [] = [cur]"
| "split_space cur (c # cs) =
     (if c = CHR '' '' then cur # split_space [] cs else split_space (cur @ [c]) cs)"

text \<open>
  The \<open>while index < len(token)\<close> loop of \<open>_split_token\<close>. It is entered with
  \<open>slice_len = max_chars - 1\<close> and \<open>max_chars \<ge> 2\<close>; the test \<open>0 < slice_len\<close> only
  makes the definition total. \<open>token[index:end]\<close> is
  \<open>take slice_len (drop index token)\<close>.
\<close>

function slice_loop :: "string \<Rightarrow> int \<Rightarrow> nat \<Rightarrow> nat \<Rightarrow> string list" where
  "slice_loop token max_chars slice_len index =
     (if index < length token \<and> 0 < slice_len then
        (let end = index + slice_len;
             chunk = take slice_len (drop index token)
         in if end < length token then (chunk @ ''-'') # slice_loop token max_chars slice_len end
            else (if int (length chunk) > max_chars then map (\<lambda>char. [char]) chunk
                  else [chunk]) @ slice_loop token max_chars slice_len end)
      else [])"
  by pat_completeness auto
termination
  by (relation "measure (\<lambda>(token, max_chars, slice_len, index). length token - index)") auto

definition split_token :: "string \<Rightarrow> int \<Rightarrow> string list" where
  "split_token token max_chars =
     (if int (length token) \<le> max_chars then [token]
      else if max_chars \<le> 1 then map (\<lambda>char. [char]) token
      else slice_loop token max_chars (nat (max_chars - 1)) 0)"

text \<open>
  The body of the inner loop of \<open>_split_sentence\<close>, on the pair
  \<open>(results, current)\<close>.
\<close>

definition pack_fragment :: "int \<Rightarrow> string list \<times> string \<Rightarrow> string \<Rightarrow> string list \<times> string" where
  "pack_fragment max_chars st fragment =
     (let results = fst st; current = snd st in
      if current = [] then (results, fragment)
      else
        (let candidate_len = int (length current) + 1 + int (length fragment) in
         if candidate_len \<le> max_chars \<or> candidate_len - max_chars < int (length fragment)
         then (results, current @ '' '' @ fragment)
         else (results @ [current], fragment)))"

definition pack_token :: "int \<Rightarrow> string list \<times> string \<Rightarrow> string \<Rightarrow> string list \<times> string" where
  "pack_token max_chars st token =
     (if token = [] then st
      else foldl (pack_fragment max_chars) st (split_token token max_chars))"

definition split_sentence :: "string \<Rightarrow> int \<Rightarrow> string list" where
  "split_sentence sentence max_chars =
     (let st = foldl (pack_token max_chars) ([], []) (split_space [] sentence);
          results = fst st; current = snd st
      in if current \<noteq> [] then results @ [current] else results)"

definition chunk_text :: "string \<Rightarrow> int \<Rightarrow> error + string list" where
  "chunk_text text max_chars =
     (if max_chars \<le> 0 then Inl ValueError
      else
        (let normalized = normalize_whitespace text in
         if normalized = [] then Inr []
         else
           (let raw_sentences = map strip (sentence_split False False [] normalized)
            in Inr (concat (map (\<lambda>sentence. split_sentence sentence max_chars)
                              (filter (\<lambda>sentence. sentence \<noteq> []) raw_sentences))))))"

text \<open>
  The shape of a chunk that \<open>_split_sentence\<close> can return: within the limit, or a part
  shorter than \<open>max_chars - 1\<close> followed by a space and one more fragment.
\<close>

definition overshoot_ok :: "int \<Rightarrow> string \<Rightarrow> bool" where
  "overshoot_ok m c =
     (int (length c) \<le> m \<or>
      (\<exists>p f. c = p @ '' '' @ f \<and> int (length p) + 1 < m \<and> int (length f) \<le> m))"

definition pack_inv :: "int \<Rightarrow> string list \<times> string \<Rightarrow> bool" where
  "pack_inv m st = (list_all (overshoot_ok m) (fst st) \<and> overshoot_ok m (snd st))"

section \<open>streaming_controller.py: backoff\<close>

text \<open>
  \<open>_compute_backoff\<close>. Seconds are exact rationals here (the source computes in
  floating point); \<open>random.uniform(0.0, 0.1)\<close> is the argument \<open>jitter\<close>.
  \<open>2 ** (attempt - 1)\<close> is \<open>power_int\<close>, a fraction when the exponent is negative
  as in Python. \<open>if retry_after:\<close> is false for \<open>None\<close> and for \<open>0\<close>.
\<close>

definition compute_backoff :: "int \<Rightarrow> rat option \<Rightarrow> rat \<Rightarrow> rat" where
  "compute_backoff attempt retry_after jitter =
     (let base = (3 / 10) * power_int 2 (attempt - 1) in
      case retry_after of
        None \<Rightarrow> base + jitter
      | Some hint \<Rightarrow> if hint \<noteq> 0 then max hint base + jitter else base + jitter)"

text \<open>The base delay \<open>0.3 * 2^(attempt - 1)\<close> of the specification, for \<open>attempt \<ge> 1\<close>.\<close>

definition backoff_base :: "int \<Rightarrow> rat" where
  "backoff_base attempt = (3 / 10) * 2 ^ nat (attempt - 1)"

section \<open>metrics.py\<close>

text \<open>
  Timestamps and latencies are exact rationals (floating point in the source).
\<close>

record chunk_metrics =
  chunk_index :: int
  char_len :: int
  request_start :: rat
  first_frame :: rat
  playback_start :: rat
  chunk_complete :: rat

text \<open>\<open>round(x, 6)\<close>: to six decimals, ties to the even neighbour.\<close>

definition round_half_even :: "rat \<Rightarrow> int" where
  "round_half_even x =
     (let f = \<lfloor>x\<rfloor>; d = x - of_int f in
      if d < 1 / 2 then f else if 1 / 2 < d then f + 1 else if even f then f else f + 1)"

definition round6 :: "rat \<Rightarrow> rat" where
  "round6 x = of_int (round_half_even (x * 1000000)) / 1000000"

definition synthesis_latency_ms :: "chunk_metrics \<Rightarrow> rat" where
  "synthesis_latency_ms m = round6 (max 0 ((first_frame m - request_start m) * 1000))"

definition startup_latency_ms :: "chunk_metrics \<Rightarrow> rat" where
  "startup_latency_ms m = round6 (max 0 ((playback_start m - request_start m) * 1000))"

definition buffer_fill_latency_ms :: "chunk_metrics \<Rightarrow> rat" where
  "buffer_fill_latency_ms m = round6 (max 0 ((playback_start m - first_frame m) * 1000))"

text \<open>\<open>xs[i]\<close> with Python's indexing: a negative index counts from the end, an index
  out of range raises \<open>IndexError\<close>.\<close>

definition py_index :: "'a list \<Rightarrow> int \<Rightarrow> error + 'a" where
  "py_index xs i =
     (if 0 \<le> i \<and> i < int (length xs) then Inr (xs ! nat i)
      else if i < 0 \<and> - int (length xs) \<le> i then Inr (xs ! nat (int (length xs) + i))
      else Inl IndexError)"

definition percentile :: "rat list \<Rightarrow> rat \<Rightarrow> error + rat" where
  "percentile vals p =
     (if vals = [] then Inr 0
      else
        (let ordered = sort vals;
             rank = p * (of_nat (length ordered) - 1);
             lower = \<lfloor>rank\<rfloor>;
             upper = \<lceil>rank\<rceil>
         in if lower = upper then py_index ordered lower
            else
              (let weight = rank - of_int lower in
               case py_index ordered lower of
                 Inl e \<Rightarrow> Inl e
               | Inr lo \<Rightarrow>
                   (case py_index ordered upper of
                      Inl e \<Rightarrow> Inl e
                    | Inr hi \<Rightarrow> Inr (lo * (1 - weight) + hi * weight)))))"

record summary =
  p95_first_frame_ms :: rat
  p95_startup_ms :: rat
  avg_inter_chunk_gap_ms :: rat

text \<open>The list of gaps between successive metrics (\<open>metrics[i-1]\<close>, \<open>metrics[i]\<close>).\<close>

fun gaps :: "chunk_metrics list \<Rightarrow> rat list" where
  "gaps (a # b # ms) = max 0 ((playback_start b - chunk_complete a) * 1000) # gaps (b # ms)"
| "gaps ms = []"

definition summarise_metrics :: "chunk_metrics list \<Rightarrow> error + summary" where
  "summarise_metrics ms =
     (if ms = [] then
        Inr \<lparr>p95_first_frame_ms = 0, p95_startup_ms = 0, avg_inter_chunk_gap_ms = 0\<rparr>
      else
        (case percentile (map synthesis_latency_ms ms) (95 / 100) of
           Inl e \<Rightarrow> Inl e
         | Inr pf \<Rightarrow>
             (case percentile (map startup_latency_ms ms) (95 / 100) of
                Inl e \<Rightarrow> Inl e
              | Inr ps \<Rightarrow>
                  Inr \<lparr>p95_first_frame_ms = pf, p95_startup_ms = ps,
                       avg_inter_chunk_gap_ms =
                         (if gaps ms = [] then 0
                          else sum_list (gaps ms) / of_nat (length (gaps ms)))\<rparr>)))"

section \<open>cache.py\<close>

definition is_OSError :: "error \<Rightarrow> bool" where
  "is_OSError e = (e = OSError \<or> e = FileNotFoundError \<or> e = PermissionError)"

text \<open>
  A \<open>datetime\<close>: its calendar fields as microseconds since 1970-01-01T00:00 on its own
  clock face, and its UTC offset in microseconds (\<open>None\<close> for a naive value).
\<close>

record datetime =
  wall_us :: int
  tz_offset_us :: "int option"

text \<open>The values \<open>json.loads\<close> returns; \<open>JNaN\<close> and \<open>JInfinity\<close> are the floats
  it returns for \<open>NaN\<close> and for \<open>Infinity\<close>, \<open>-Infinity\<close> or a literal out of range.\<close>

datatype json =
    JNull
  | JBool bool
  | JInt int
  | JFloat rat
  | JNaN
  | JInfinity
  | JStr string
  | JList "json list"
  | JDict "(string \<times> json) list"

text \<open>
  The library functions the cache calls, as parameters: \<open>json.loads\<close> of the decoded
  text (\<open>None\<close> when it raises \<open>JSONDecodeError\<close> or the decoding raises
  \<open>UnicodeDecodeError\<close>, both \<open>ValueError\<close>s), \<open>json.dumps(..., indent=2)\<close>,
  \<open>datetime.fromisoformat\<close> and \<open>int\<close> on a string (\<open>None\<close> for
  \<open>ValueError\<close>), \<open>datetime.isoformat\<close>, and in \<open>key_digest\<close> the SHA-256 hex digest
  of the compact dump with sorted keys that \<open>make_cache_key\<close> computes.
\<close>

record pylib =
  json_loads :: "string \<Rightarrow> json option"
  json_dumps :: "json \<Rightarrow> string"
  fromisoformat :: "string \<Rightarrow> datetime option"
  isoformat :: "datetime \<Rightarrow> string"
  int_of_str :: "string \<Rightarrow> int option"
  key_digest :: "json \<Rightarrow> string"

text \<open>
  The file system under the cache directory: the files by path, and for each path
  whether reading, writing or unlinking it is refused (\<open>PermissionError\<close>).
  Directories are not modelled: \<open>mkdir(parents=True, exist_ok=True)\<close> succeeds.
\<close>

record filesystem =
  files :: "string \<Rightarrow> string option"
  deny_read :: "string \<Rightarrow> bool"
  deny_write :: "string \<Rightarrow> bool"
  deny_unlink :: "string \<Rightarrow> bool"

definition path_exists :: "filesystem \<Rightarrow> string \<Rightarrow> bool" where
  "path_exists fs p = (files fs p \<noteq> None)"

definition read_file :: "filesystem \<Rightarrow> string \<Rightarrow> error + string" where
  "read_file fs p =
     (case files fs p of
        None \<Rightarrow> Inl FileNotFoundError
      | Some content \<Rightarrow> if deny_read fs p then Inl PermissionError else Inr content)"

definition write_file :: "filesystem \<Rightarrow> string \<Rightarrow> string \<Rightarrow> (error + unit) \<times> filesystem" where
  "write_file fs p content =
     (if deny_write fs p then (Inl PermissionError, fs)
      else (Inr (), fs\<lparr>files := (files fs)(p := Some content)\<rparr>))"

definition unlink :: "filesystem \<Rightarrow> string \<Rightarrow> (error + unit) \<times> filesystem" where
  "unlink fs p =
     (case files fs p of
        None \<Rightarrow> (Inl FileNotFoundError, fs)
      | Some content \<Rightarrow>
          if deny_unlink fs p then (Inl PermissionError, fs)
          else (Inr (), fs\<lparr>files := (files fs)(p := None)\<rparr>))"

record cached_item =
  pcm :: string
  sample_rate :: int
  created_at :: datetime

text \<open>\<open>round(float(x), 4)\<close>\<close>

definition round4 :: "rat \<Rightarrow> rat" where
  "round4 x = of_int (round_half_even (x * 10000)) / 10000"

definition make_cache_key :: "pylib \<Rightarrow> string \<Rightarrow> string \<Rightarrow> rat \<Rightarrow> rat \<Rightarrow> string \<Rightarrow> string" where
  "make_cache_key lib voice_id model_id stability similarity chunk =
     key_digest lib
       (JDict [(''voice_id'', JStr voice_id), (''model_id'', JStr model_id),
               (''stability'', JFloat (round4 stability)),
               (''similarity'', JFloat (round4 similarity)), (''text'', JStr chunk)])"

text \<open>\<open>PhraseCache\<close>: \<open>self.ttl = timedelta(seconds=ttl_seconds)\<close>.\<close>

record phrase_cache =
  cache_dir :: string
  ttl_seconds :: int

definition paths_for_key :: "phrase_cache \<Rightarrow> string \<Rightarrow> string \<times> string" where
  "paths_for_key c key =
     (let shard = take 2 key;
          bucket = cache_dir c @ ''/'' @ shard
      in (bucket @ ''/'' @ key @ ''.pcm'', bucket @ ''/'' @ key @ ''.json''))"

text \<open>\<open>datetime.now(timezone.utc) - created_at > self.ttl\<close>, for an aware
  \<open>created_at\<close>; \<open>now\<close> is the wall clock in microseconds, UTC.\<close>

definition is_expired :: "phrase_cache \<Rightarrow> int \<Rightarrow> datetime \<Rightarrow> bool" where
  "is_expired c now created =
     (now - (wall_us created - (case tz_offset_us created of None \<Rightarrow> 0 | Some off \<Rightarrow> off))
        > ttl_seconds c * 1000000)"

text \<open>\<open>_remove_files\<close>: only \<open>FileNotFoundError\<close> is caught.\<close>

fun remove_files :: "filesystem \<Rightarrow> string list \<Rightarrow> (error + unit) \<times> filesystem" where
  "remove_files fs [] = (Inr (), fs)"
| "remove_files fs (path # paths) =
     (case unlink fs path of
        (Inl e, fs') \<Rightarrow> if e = FileNotFoundError then remove_files fs' paths else (Inl e, fs')
      | (Inr u, fs') \<Rightarrow> remove_files fs' paths)"

text \<open>\<open>data[key]\<close> for a value that \<open>json.loads\<close> returned and a string key.\<close>

definition subscript :: "json \<Rightarrow> string \<Rightarrow> error + json" where
  "subscript data key =
     (case data of
        JDict kvs \<Rightarrow> (case map_of kvs key of None \<Rightarrow> Inl KeyError | Some v \<Rightarrow> Inr v)
      | _ \<Rightarrow> Inl TypeError)"

definition py_fromisoformat :: "pylib \<Rightarrow> json \<Rightarrow> error + datetime" where
  "py_fromisoformat lib v =
     (case v of
        JStr s \<Rightarrow> (case fromisoformat lib s of None \<Rightarrow> Inl ValueError | Some d \<Rightarrow> Inr d)
      | _ \<Rightarrow> Inl TypeError)"

text \<open>\<open>int(v)\<close>; a float is truncated towards zero, \<open>int(nan)\<close> raises \<open>ValueError\<close>
  and \<open>int(inf)\<close> raises \<open>OverflowError\<close>.\<close>

definition py_int :: "pylib \<Rightarrow> json \<Rightarrow> error + int" where
  "py_int lib v =
     (case v of
        JInt n \<Rightarrow> Inr n
      | JBool b \<Rightarrow> Inr (if b then 1 else 0)
      | JFloat x \<Rightarrow> Inr (if 0 \<le> x then \<lfloor>x\<rfloor> else \<lceil>x\<rceil>)
      | JNaN \<Rightarrow> Inl ValueError
      | JInfinity \<Rightarrow> Inl OverflowError
      | JStr s \<Rightarrow> (case int_of_str lib s of None \<Rightarrow> Inl ValueError | Some n \<Rightarrow> Inr n)
      | _ \<Rightarrow> Inl TypeError)"

text \<open>The first \<open>try\<close> block of \<open>get\<close>.\<close>

definition read_meta :: "pylib \<Rightarrow> filesystem \<Rightarrow> string \<Rightarrow> error + datetime \<times> int" where
  "read_meta lib fs meta_path =
     (case read_file fs meta_path of
        Inl e \<Rightarrow> Inl e
      | Inr text \<Rightarrow>
          (case json_loads lib text of
             None \<Rightarrow> Inl ValueError
           | Some data \<Rightarrow>
               (case subscript data ''created_at'' of
                  Inl e \<Rightarrow> Inl e
                | Inr c \<Rightarrow>
                    (case py_fromisoformat lib c of
                       Inl e \<Rightarrow> Inl e
                     | Inr created \<Rightarrow>
                         (case subscript data ''sample_rate'' of
                            Inl e \<Rightarrow> Inl e
                          | Inr r \<Rightarrow>
                              (case py_int lib r of
                                 Inl e \<Rightarrow> Inl e
                               | Inr rate \<Rightarrow> Inr (created, rate)))))))"

text \<open>\<open>self._remove_files(pcm_path, meta_path); return None\<close>\<close>

definition remove_and_miss ::
  "filesystem \<Rightarrow> string \<Rightarrow> string \<Rightarrow> (error + cached_item option) \<times> filesystem" where
  "remove_and_miss fs pcm_path meta_path =
     (case remove_files fs [pcm_path, meta_path] of
        (Inl e, fs') \<Rightarrow> (Inl e, fs')
      | (Inr u, fs') \<Rightarrow> (Inr None, fs'))"

text \<open>\<open>PhraseCache.get\<close>; \<open>now\<close> is what \<open>datetime.now(timezone.utc)\<close> returns.\<close>

definition get ::
  "pylib \<Rightarrow> phrase_cache \<Rightarrow> int \<Rightarrow> string \<Rightarrow> filesystem \<Rightarrow> (error + cached_item option) \<times> filesystem" where
  "get lib c now key fs =
     (let pcm_path = fst (paths_for_key c key); meta_path = snd (paths_for_key c key) in
      if \<not> path_exists fs meta_path \<or> \<not> path_exists fs pcm_path then (Inr None, fs)
      else
        (case read_meta lib fs meta_path of
           Inl e \<Rightarrow>
             if is_OSError e \<or> e = KeyError \<or> e = ValueError
             then remove_and_miss fs pcm_path meta_path
             else (Inl e, fs)
         | Inr (created, rate) \<Rightarrow>
             (let created_at =
                    (if tz_offset_us created = None then created\<lparr>tz_offset_us := Some 0\<rparr>
                     else created)
              in if is_expired c now created_at then remove_and_miss fs pcm_path meta_path
                 else
                   (case read_file fs pcm_path of
                      Inl e \<Rightarrow>
                        if is_OSError e then remove_and_miss fs pcm_path meta_path
                        else (Inl e, fs)
                    | Inr pcm_bytes \<Rightarrow>
                        (Inr (Some \<lparr>pcm = pcm_bytes, sample_rate = rate,
                                     created_at = created_at\<rparr>), fs)))))"

text \<open>\<open>PhraseCache.put\<close>: the audio first, then the metadata.\<close>

definition put ::
  "pylib \<Rightarrow> phrase_cache \<Rightarrow> int \<Rightarrow> string \<Rightarrow> string \<Rightarrow> int \<Rightarrow> filesystem \<Rightarrow> (error + unit) \<times> filesystem" where
  "put lib c now key pcm_bytes rate fs =
     (let pcm_path = fst (paths_for_key c key); meta_path = snd (paths_for_key c key) in
      case write_file fs pcm_path pcm_bytes of
        (Inl e, fs') \<Rightarrow> (Inl e, fs')
      | (Inr u, fs') \<Rightarrow>
          write_file fs' meta_path
            (json_dumps lib
               (JDict [(''created_at'', JStr (isoformat lib \<lparr>wall_us = now, tz_offset_us = Some 0\<rparr>)),
                       (''sample_rate'', JInt rate),
                       (''byte_len'', JInt (int (length pcm_bytes)))])))"

text \<open>
  The metadata document that \<open>put\<close> writes, and the state of the file system after
  \<open>put\<close> has written both files.
\<close>

definition meta_doc :: "pylib \<Rightarrow> int \<Rightarrow> string \<Rightarrow> int \<Rightarrow> json" where
  "meta_doc lib now pcm_bytes rate =
     JDict [(''created_at'', JStr (isoformat lib \<lparr>wall_us = now, tz_offset_us = Some 0\<rparr>)),
            (''sample_rate'', JInt rate),
            (''byte_len'', JInt (int (length pcm_bytes)))]"

text \<open>The file system with the two files of an entry removed.\<close>

definition without_entry :: "phrase_cache \<Rightarrow> string \<Rightarrow> filesystem \<Rightarrow> filesystem" where
  "without_entry c key fs =
     fs\<lparr>files := (files fs)(fst (paths_for_key c key) := None, snd (paths_for_key c key) := None)\<rparr>"

text \<open>
  A small instance of the library parameters, for evaluating the model on concrete
  inputs: a metadata document is written as three fields separated by spaces, numbers
  in unary; a timestamp is written in unary as well.
\<close>

definition example_lib :: pylib where
  "example_lib =
     \<lparr>json_loads =
        (\<lambda>s. case split_space [] s of
                [t, r, n] \<Rightarrow>
                  Some (JDict [(''created_at'', JStr t), (''sample_rate'', JInt (int (length r))),
                               (''byte_len'', JInt (int (length n)))])
              | _ \<Rightarrow> None),
      json_dumps =
        (\<lambda>j. case j of
                JDict [(k1, JStr t), (k2, JInt r), (k3, JInt n)] \<Rightarrow>
                  t @ '' '' @ replicate (nat r) (CHR ''r'') @ '' '' @ replicate (nat n) (CHR ''b'')
              | _ \<Rightarrow> []),
      fromisoformat =
        (\<lambda>s. if s \<noteq> [] \<and> list_all (\<lambda>ch. ch = CHR ''u'') s
              then Some \<lparr>wall_us = int (length s), tz_offset_us = Some 0\<rparr> else None),
      isoformat = (\<lambda>d. replicate (nat (wall_us d)) (CHR ''u'')),
      int_of_str = (\<lambda>s. if list_all (\<lambda>ch. ch = CHR ''r'') s then Some (int (length s)) else None),
      key_digest =
        (\<lambda>j. case j of
                JDict kvs \<Rightarrow> (case map_of kvs ''text'' of Some (JStr t) \<Rightarrow> ''00'' @ t | _ \<Rightarrow> ''00'')
              | _ \<Rightarrow> ''00'')\<rparr>"

definition example_cache :: phrase_cache where
  "example_cache = \<lparr>cache_dir = ''cache'', ttl_seconds = 60\<rparr>"

definition empty_fs :: filesystem where
  "empty_fs = \<lparr>files = (\<lambda>p. None), deny_read = (\<lambda>p. False), deny_write = (\<lambda>p. False),
               deny_unlink = (\<lambda>p. False)\<rparr>"

text \<open>
  The failures of the read path of \<open>get\<close> that it handles, for an entry whose two files
  exist, in the order in which \<open>get\<close> meets them: the metadata file cannot be read; its
  text is not JSON; it is a JSON object without \<open>created_at\<close>; \<open>created_at\<close> is a
  string that is not an ISO-8601 date; \<open>created_at\<close> is an ISO-8601 string and the
  object has no \<open>sample_rate\<close>; \<open>created_at\<close> is an ISO-8601 string and \<open>int\<close> of
  \<open>sample_rate\<close> raises \<open>ValueError\<close> (a string that is no integer literal, or
  NaN); \<open>created_at\<close> is an ISO-8601 string, \<open>int\<close> of \<open>sample_rate\<close> succeeds, and
  the entry's age exceeds the TTL or the audio file cannot be read.
\<close>

definition normalized :: "datetime \<Rightarrow> datetime" where
  "normalized created =
     (if tz_offset_us created = None then created\<lparr>tz_offset_us := Some 0\<rparr> else created)"

definition handled_failure :: "pylib \<Rightarrow> phrase_cache \<Rightarrow> int \<Rightarrow> string \<Rightarrow> filesystem \<Rightarrow> bool" where
  "handled_failure lib c now key fs =
     (deny_read fs (snd (paths_for_key c key))
      \<or> (\<exists>text. files fs (snd (paths_for_key c key)) = Some text \<and> json_loads lib text = None)
      \<or> (\<exists>text kvs. files fs (snd (paths_for_key c key)) = Some text
            \<and> json_loads lib text = Some (JDict kvs)
            \<and> map_of kvs ''created_at'' = None)
      \<or> (\<exists>text kvs s. files fs (snd (paths_for_key c key)) = Some text
            \<and> json_loads lib text = Some (JDict kvs)
            \<and> map_of kvs ''created_at'' = Some (JStr s) \<and> fromisoformat lib s = None)
      \<or> (\<exists>text kvs s created. files fs (snd (paths_for_key c key)) = Some text
            \<and> json_loads lib text = Some (JDict kvs)
            \<and> map_of kvs ''created_at'' = Some (JStr s) \<and> fromisoformat lib s = Some created
            \<and> map_of kvs ''sample_rate'' = None)
      \<or> (\<exists>text kvs s created v. files fs (snd (paths_for_key c key)) = Some text
            \<and> json_loads lib text = Some (JDict kvs)
            \<and> map_of kvs ''created_at'' = Some (JStr s) \<and> fromisoformat lib s = Some created
            \<and> map_of kvs ''sample_rate'' = Some v \<and> py_int lib v = Inl ValueError)
      \<or> (\<exists>text kvs s created v rate. files fs (snd (paths_for_key c key)) = Some text
            \<and> json_loads lib text = Some (JDict kvs)
            \<and> map_of kvs ''created_at'' = Some (JStr s) \<and> fromisoformat lib s = Some created
            \<and> map_of kvs ''sample_rate'' = Some v \<and> py_int lib v = Inr rate
            \<and> (is_expired c now (normalized created)
                 \<or> deny_read fs (fst (paths_for_key c key)))))"

text \<open>
  A file system holding an entry for the key \<open>abc123\<close> whose metadata is not JSON, the
  same with the audio file protected against removal, and the same with the metadata
  file protected against removal.
\<close>

definition broken_fs :: filesystem where
  "broken_fs =
     \<lparr>files = (\<lambda>p. if p = ''cache/ab/abc123.pcm'' then Some ''xy''
                    else if p = ''cache/ab/abc123.json'' then Some ''garbage'' else None),
      deny_read = (\<lambda>p. False), deny_write = (\<lambda>p. False), deny_unlink = (\<lambda>p. False)\<rparr>"

definition locked_fs :: filesystem where
  "locked_fs = broken_fs\<lparr>deny_unlink := (\<lambda>p. p = ''cache/ab/abc123.pcm'')\<rparr>"

definition meta_locked_fs :: filesystem where
  "meta_locked_fs = broken_fs\<lparr>deny_unlink := (\<lambda>p. p = ''cache/ab/abc123.json'')\<rparr>"

section \<open>streaming_controller.py: the controller\<close>

text \<open>
  The settings dictionaries (\<open>cache_params\<close>, \<open>provider_settings\<close>) with the keys the
  controller reads; a key that is absent is \<open>None\<close>. \<open>None\<close> for the whole
  \<open>provider_settings\<close> argument is the record with every key absent.
\<close>

record settings =
  voice_id :: "string option"
  model_id :: "string option"
  stability :: "rat option"
  stability_boost :: "rat option"
  similarity :: "rat option"
  similarity_boost :: "rat option"

definition no_settings :: settings where
  "no_settings = \<lparr>voice_id = None, model_id = None, stability = None, stability_boost = None,
                   similarity = None, similarity_boost = None\<rparr>"

text \<open>\<open>params = dict(a); params.update(b)\<close>\<close>

definition or_option :: "'a option \<Rightarrow> 'a option \<Rightarrow> 'a option" where
  "or_option new old = (case new of None \<Rightarrow> old | Some v \<Rightarrow> Some v)"

definition update_settings :: "settings \<Rightarrow> settings \<Rightarrow> settings" where
  "update_settings a b =
     \<lparr>voice_id = or_option (voice_id b) (voice_id a),
      model_id = or_option (model_id b) (model_id a),
      stability = or_option (stability b) (stability a),
      stability_boost = or_option (stability_boost b) (stability_boost a),
      similarity = or_option (similarity b) (similarity a),
      similarity_boost = or_option (similarity_boost b) (similarity_boost a)\<rparr>"

record audio_frame =
  frame_pcm :: string
  frame_rate :: int

text \<open>What a provider's stream yields: an \<open>AudioFrame\<close> or some other object.\<close>

datatype stream_item = Frame audio_frame | NotAFrame

text \<open>One call of \<open>provider.stream\<close>: the items it yields, then the error it raises
  (if any) instead of stopping.\<close>

record stream_outcome =
  items :: "stream_item list"
  failure :: "error option"

text \<open>The calls the controller makes on its collaborators, in order.\<close>

datatype event =
    Connect
  | Start int
  | StreamCall string
  | Submit audio_frame
  | FlushAndClose
  | ProviderClose
  | CacheGet string
  | CachePut string
  | Sleep rat

text \<open>
  The behaviour of the collaborators: the library, the chunker, the successive readings
  of the monotonic clock, the wall clock at the successive cache operations, the
  successive draws of \<open>random.uniform(0.0, 0.1)\<close>, the outcome of the n-th call of
  \<open>provider.stream\<close>, what \<open>connect\<close>, \<open>start\<close>, \<open>submit\<close>, \<open>flush_and_close\<close> and
  \<open>close\<close> raise, and the number of nested calls the interpreter allows before it
  raises \<open>RecursionError\<close>.
\<close>

record env =
  library :: pylib
  chunker :: "string \<Rightarrow> int \<Rightarrow> error + string list"
  clock_at :: "nat \<Rightarrow> rat"
  wall_at :: "nat \<Rightarrow> int"
  jitter_at :: "nat \<Rightarrow> rat"
  stream_at :: "nat \<Rightarrow> string \<Rightarrow> stream_outcome"
  connect_raises :: "error option"
  start_raises :: "error option"
  submit_raises :: "audio_frame \<Rightarrow> error option"
  flush_raises :: "error option"
  close_raises :: "error option"
  stack_depth :: nat

record world =
  trace :: "event list"
  disk :: filesystem
  clock_reads :: nat
  cache_ops :: nat
  jitter_draws :: nat
  stream_calls :: nat

record controller =
  metrics :: "chunk_metrics list"
  cache :: "phrase_cache option"
  cache_params :: settings
  max_retries :: int
  prebuffer_ms :: int
  chunk_max_chars :: int
  recent_metrics :: "chunk_metrics list"
  recent_underruns :: "bool list"
  pending_underrun :: bool

definition emit :: "event \<Rightarrow> world \<Rightarrow> world" where
  "emit ev w = w\<lparr>trace := trace w @ [ev]\<rparr>"

text \<open>\<open>self._clock()\<close>\<close>

definition clock :: "env \<Rightarrow> world \<Rightarrow> rat \<times> world" where
  "clock e w = (clock_at e (clock_reads w), w\<lparr>clock_reads := Suc (clock_reads w)\<rparr>)"

text \<open>\<open>self.playback.submit(frame)\<close>\<close>

definition submit :: "env \<Rightarrow> audio_frame \<Rightarrow> world \<Rightarrow> (error + unit) \<times> world" where
  "submit e frame w =
     (case submit_raises e frame of
        None \<Rightarrow> (Inr (), emit (Submit frame) w)
      | Some err \<Rightarrow> (Inl err, emit (Submit frame) w))"

definition compute_cache_key :: "pylib \<Rightarrow> controller \<Rightarrow> string \<Rightarrow> settings \<Rightarrow> string option" where
  "compute_cache_key l st chunk base_settings =
     (if cache st = None then None
      else
        (let params = update_settings (cache_params st) base_settings;
             voice = (case voice_id params of None \<Rightarrow> [] | Some v \<Rightarrow> v);
             model = (case model_id params of None \<Rightarrow> [] | Some v \<Rightarrow> v);
             stab = (case stability params of
                       Some v \<Rightarrow> v
                     | None \<Rightarrow> (case stability_boost params of Some v \<Rightarrow> v | None \<Rightarrow> 0));
             sim = (case similarity params of
                      Some v \<Rightarrow> v
                    | None \<Rightarrow> (case similarity_boost params of Some v \<Rightarrow> v | None \<Rightarrow> 0))
         in if voice = [] \<or> model = [] then None
            else Some (make_cache_key l voice model stab sim chunk)))"

text \<open>
  \<open>_play_cached_item\<close>: \<open>cut n xs\<close> are the slices \<open>xs[offset : offset + n]\<close> for
  \<open>offset\<close> in \<open>range(0, len(xs), n)\<close>; \<open>int(sample_rate * 0.1)\<close> truncates.
\<close>

function cut :: "nat \<Rightarrow> 'a list \<Rightarrow> 'a list list" where
  "cut n xs = (if n = 0 \<or> xs = [] then [] else take n xs # cut n (drop n xs))"
  by pat_completeness auto
termination
  by (relation "measure (\<lambda>(n, xs). length xs)") auto

fun submit_all :: "env \<Rightarrow> audio_frame list \<Rightarrow> world \<Rightarrow> (error + unit) \<times> world" where
  "submit_all e [] w = (Inr (), w)"
| "submit_all e (frame # frames) w =
     (case submit e frame w of
        (Inl err, w') \<Rightarrow> (Inl err, w')
      | (Inr u, w') \<Rightarrow> submit_all e frames w')"

definition play_cached_item :: "env \<Rightarrow> cached_item \<Rightarrow> int \<Rightarrow> world \<Rightarrow> (error + unit) \<times> world" where
  "play_cached_item e cached rate w =
     (let slice_samples = max 1 (if 0 \<le> rate then rate div 10 else - ((- rate) div 10));
          bytes_per_sample = 2;
          chunk_size = slice_samples * bytes_per_sample
      in submit_all e
           (map (\<lambda>frame_bytes. \<lparr>frame_pcm = frame_bytes, frame_rate = rate\<rparr>)
                (filter (\<lambda>frame_bytes. frame_bytes \<noteq> []) (cut (nat chunk_size) (pcm cached))))
           w)"

text \<open>\<open>_consume_pending_underrun\<close>\<close>

definition consume_pending_underrun :: "controller \<Rightarrow> bool \<times> controller" where
  "consume_pending_underrun st = (pending_underrun st, st\<lparr>pending_underrun := False\<rparr>)"

text \<open>\<open>ts or chunk_complete\<close>: a timestamp that is \<open>None\<close> or \<open>0.0\<close> is falsy.\<close>

definition ts_or :: "rat option \<Rightarrow> rat \<Rightarrow> rat" where
  "ts_or ts fallback = (case ts of None \<Rightarrow> fallback | Some t \<Rightarrow> if t = 0 then fallback else t)"

text \<open>
  The \<open>for frame in self.provider.stream(...)\<close> loop of \<open>_process_chunk\<close>, on the
  triple \<open>(first_frame_ts, playback_start_ts, buffered_audio)\<close>.
\<close>

fun stream_loop ::
  "env \<Rightarrow> stream_item list \<Rightarrow> rat option \<times> rat option \<times> string \<Rightarrow> world \<Rightarrow>
   (error + rat option \<times> rat option \<times> string) \<times> world" where
  "stream_loop e [] acc w = (Inr acc, w)"
| "stream_loop e (item # rest) acc w =
     (case item of
        NotAFrame \<Rightarrow> (Inl TypeError, w)
      | Frame frame \<Rightarrow>
          (case clock e w of
             (now, w1) \<Rightarrow>
               (let first_frame_ts = (if fst acc = None then Some now else fst acc);
                    playback_start_ts = (if fst (snd acc) = None then Some now else fst (snd acc))
                in case submit e frame w1 of
                     (Inl err, w2) \<Rightarrow> (Inl err, w2)
                   | (Inr u, w2) \<Rightarrow>
                       stream_loop e rest
                         (first_frame_ts, playback_start_ts, snd (snd acc) @ frame_pcm frame) w2)))"

text \<open>
  The two ways \<open>_process_chunk\<close> returns: the metric, the underrun flag and the
  controller with its pending flag consumed.
\<close>

definition finish_chunk ::
  "controller \<Rightarrow> nat \<Rightarrow> string \<Rightarrow> rat \<Rightarrow> rat \<Rightarrow> rat \<Rightarrow> rat \<Rightarrow> chunk_metrics \<times> bool \<times> controller" where
  "finish_chunk st index chunk t_request t_first t_playback t_complete =
     (case consume_pending_underrun st of
        (underrun_flag, st') \<Rightarrow>
          (\<lparr>chunk_index = int index, char_len = int (length chunk), request_start = t_request,
            first_frame = t_first, playback_start = t_playback, chunk_complete = t_complete\<rparr>,
           underrun_flag, st'))"

text \<open>The cache-hit branch of \<open>_process_chunk\<close>.\<close>

definition replay_cached ::
  "env \<Rightarrow> controller \<Rightarrow> world \<Rightarrow> nat \<Rightarrow> string \<Rightarrow> int \<Rightarrow> cached_item \<Rightarrow>
   (error + chunk_metrics \<times> bool \<times> controller) \<times> world" where
  "replay_cached e st w index chunk rate cached =
     (case clock e w of
        (t_request, w1) \<Rightarrow>
          (case play_cached_item e cached rate w1 of
             (Inl err, w2) \<Rightarrow> (Inl err, w2)
           | (Inr u, w2) \<Rightarrow>
               (case clock e w2 of
                  (t_complete, w3) \<Rightarrow>
                    (Inr (finish_chunk st index chunk t_request t_request t_request t_complete), w3))))"

text \<open>The rest of \<open>_process_chunk\<close>, from \<open>request_start = self._clock()\<close> on:
  streaming from the provider, then writing the cache.\<close>

definition synthesize ::
  "env \<Rightarrow> controller \<Rightarrow> world \<Rightarrow> nat \<Rightarrow> string \<Rightarrow> int \<Rightarrow> string option \<Rightarrow>
   (error + chunk_metrics \<times> bool \<times> controller) \<times> world" where
  "synthesize e st w index chunk rate cache_key =
     (case clock e w of
        (t_request, w1) \<Rightarrow>
          (let outcome = stream_at e (stream_calls w1) chunk;
               w2 = emit (StreamCall chunk) (w1\<lparr>stream_calls := Suc (stream_calls w1)\<rparr>)
           in case stream_loop e (items outcome) (None, None, []) w2 of
                (Inl err, w3) \<Rightarrow> (Inl err, w3)
              | (Inr acc, w3) \<Rightarrow>
                  (case failure outcome of
                     Some err \<Rightarrow> (Inl err, w3)
                   | None \<Rightarrow>
                       (case clock e w3 of
                          (t_complete, w4) \<Rightarrow>
                            (let done = finish_chunk st index chunk t_request
                                          (ts_or (fst acc) t_complete)
                                          (ts_or (fst (snd acc)) t_complete) t_complete
                             in case (cache_key, cache st) of
                                  (Some key, Some c) \<Rightarrow>
                                    if key \<noteq> [] \<and> snd (snd acc) \<noteq> [] then
                                      (case put (library e) c (wall_at e (cache_ops w4)) key
                                              (snd (snd acc)) rate (disk w4) of
                                         (res, disk') \<Rightarrow>
                                           (let w5 = emit (CachePut key)
                                                  (w4\<lparr>disk := disk', cache_ops := Suc (cache_ops w4)\<rparr>)
                                            in case res of
                                                 Inl err \<Rightarrow> (Inl err, w5)
                                               | Inr u \<Rightarrow> (Inr done, w5)))
                                    else (Inr done, w4)
                                | _ \<Rightarrow> (Inr done, w4))))))"

text \<open>\<open>_process_chunk\<close>. \<open>previous_chunk_complete\<close> only feeds a debug log line.\<close>

definition process_chunk ::
  "env \<Rightarrow> controller \<Rightarrow> world \<Rightarrow> nat \<Rightarrow> string \<Rightarrow> int \<Rightarrow> settings \<Rightarrow> rat option \<Rightarrow>
   (error + chunk_metrics \<times> bool \<times> controller) \<times> world" where
  "process_chunk e st w index chunk rate provider_settings previous_chunk_complete =
     (let cache_key = compute_cache_key (library e) st chunk provider_settings in
      case (cache_key, cache st) of
        (Some key, Some c) \<Rightarrow>
          if key \<noteq> [] then
            (case get (library e) c (wall_at e (cache_ops w)) key (disk w) of
               (res, disk') \<Rightarrow>
                 (let w1 = emit (CacheGet key) (w\<lparr>disk := disk', cache_ops := Suc (cache_ops w)\<rparr>)
                  in case res of
                       Inl err \<Rightarrow> (Inl err, w1)
                     | Inr (Some cached) \<Rightarrow> replay_cached e st w1 index chunk rate cached
                     | Inr None \<Rightarrow> synthesize e st w1 index chunk rate cache_key))
          else synthesize e st w index chunk rate cache_key
      | _ \<Rightarrow> synthesize e st w index chunk rate cache_key)"

text \<open>\<open>int(x)\<close> of a number: truncation towards zero.\<close>

definition py_trunc :: "rat \<Rightarrow> int" where
  "py_trunc x = (if 0 \<le> x then \<lfloor>x\<rfloor> else \<lceil>x\<rceil>)"

text \<open>\<open>_apply_adaptive_logic\<close>; \<open>recent[-5:]\<close> is the last five entries.\<close>

definition apply_adaptive_logic :: "controller \<Rightarrow> error + controller" where
  "apply_adaptive_logic st =
     (let st1 =
            (if 2 < count_list (recent_underruns st) True \<and> prebuffer_ms st < 200 then
               (let new_prebuffer = min 200 (prebuffer_ms st + 20) in
                if new_prebuffer \<noteq> prebuffer_ms st then st\<lparr>prebuffer_ms := new_prebuffer\<rparr> else st)
             else st)
      in if 5 \<le> length (recent_metrics st1) then
           (let recent = drop (length (recent_metrics st1) - 5) (recent_metrics st1) in
            case summarise_metrics recent of
              Inl err \<Rightarrow> Inl err
            | Inr summ \<Rightarrow>
                if 600 < p95_first_frame_ms summ then
                  (let new_chunk = max 80 (py_trunc (of_int (chunk_max_chars st1) * (8 / 10))) in
                   if new_chunk < chunk_max_chars st1 then Inr (st1\<lparr>chunk_max_chars := new_chunk\<rparr>)
                   else Inr st1)
                else Inr st1)
         else Inr st1)"

text \<open>
  \<open>_record_metric\<close>. Its first statement is a call of \<open>_record_metric\<close> itself;
  \<open>depth\<close> is the number of nested calls the interpreter still allows, and at none left
  the call raises \<open>RecursionError\<close>. \<open>pop(0)\<close> drops the oldest entry.
\<close>

fun record_metric :: "nat \<Rightarrow> controller \<Rightarrow> chunk_metrics \<Rightarrow> bool \<Rightarrow> error + controller" where
  "record_metric 0 st metric underrun = Inl RecursionError"
| "record_metric (Suc depth) st metric underrun =
     (case record_metric depth st metric underrun of
        Inl err \<Rightarrow> Inl err
      | Inr st1 \<Rightarrow>
          (let st2 = st1\<lparr>recent_metrics := recent_metrics st1 @ [metric],
                         recent_underruns := recent_underruns st1 @ [underrun]\<rparr>;
               st3 = (if 5 < length (recent_metrics st2)
                      then st2\<lparr>recent_metrics := tl (recent_metrics st2)\<rparr> else st2);
               st4 = (if 5 < length (recent_underruns st3)
                      then st3\<lparr>recent_underruns := tl (recent_underruns st3)\<rparr> else st3)
           in apply_adaptive_logic st4))"

text \<open>The body of the \<open>try\<close> inside \<open>while True\<close>: \<open>_process_chunk\<close>, then
  \<open>_record_metric\<close>.\<close>

definition try_chunk ::
  "env \<Rightarrow> controller \<Rightarrow> world \<Rightarrow> nat \<Rightarrow> string \<Rightarrow> int \<Rightarrow> settings \<Rightarrow> rat option \<Rightarrow>
   (error + chunk_metrics) \<times> controller \<times> world" where
  "try_chunk e st w index chunk rate provider_settings previous_chunk_complete =
     (case process_chunk e st w index chunk rate provider_settings previous_chunk_complete of
        (Inl err, w1) \<Rightarrow> (Inl err, st, w1)
      | (Inr (metric, underrun, st1), w1) \<Rightarrow>
          (case record_metric (stack_depth e) st1 metric underrun of
             Inl err \<Rightarrow> (Inl err, st1, w1)
           | Inr st2 \<Rightarrow> (Inr metric, st2, w1)))"

definition is_transient :: "error \<Rightarrow> bool" where
  "is_transient err = (case err of ProviderNetworkError \<Rightarrow> True | ProviderRateLimitError r \<Rightarrow> True | _ \<Rightarrow> False)"

text \<open>\<open>getattr(exc, "retry_after", None)\<close>\<close>

definition retry_after_of :: "error \<Rightarrow> rat option" where
  "retry_after_of err = (case err of ProviderRateLimitError r \<Rightarrow> r | _ \<Rightarrow> None)"

lemma finish_chunk_max_retries:
  "max_retries (snd (snd (finish_chunk st index chunk a b c d))) = max_retries st"
  by (simp add: finish_chunk_def consume_pending_underrun_def)

lemma replay_cached_max_retries:
  "replay_cached e st w index chunk rate cached = (Inr (metric, underrun, st1), w1) \<Longrightarrow>
   max_retries st1 = max_retries st"
  unfolding replay_cached_def
  by (auto split: prod.splits sum.splits
           dest!: arg_cong [where f = "\<lambda>x. max_retries (snd (snd x))"]
           simp: finish_chunk_max_retries)

lemma synthesize_max_retries:
  "synthesize e st w index chunk rate cache_key = (Inr (metric, underrun, st1), w1) \<Longrightarrow>
   max_retries st1 = max_retries st"
  unfolding synthesize_def Let_def
  by (auto split: prod.splits sum.splits option.splits if_splits
           dest!: arg_cong [where f = "\<lambda>x. max_retries (snd (snd x))"]
           simp: finish_chunk_max_retries)

lemma process_chunk_max_retries:
  "process_chunk e st w index chunk rate ps prev = (Inr (metric, underrun, st1), w1) \<Longrightarrow>
   max_retries st1 = max_retries st"
  unfolding process_chunk_def Let_def
  by (auto split: prod.splits sum.splits option.splits if_splits
           dest: replay_cached_max_retries synthesize_max_retries)

lemma try_chunk_max_retries:
  "try_chunk e st w index chunk rate ps prev = (Inl err, st', w') \<Longrightarrow>
   max_retries st' = max_retries st"
  unfolding try_chunk_def
  by (auto split: prod.splits sum.splits dest: process_chunk_max_retries)

text \<open>
  The \<open>while True\<close> loop of \<open>run\<close> for one chunk, \<open>attempts\<close> being the number of
  transient failures so far. It returns the metric of the chunk, or the error that
  leaves the loop.
\<close>

function attempt_loop ::
  "env \<Rightarrow> nat \<Rightarrow> string \<Rightarrow> int \<Rightarrow> settings \<Rightarrow> rat option \<Rightarrow> nat \<Rightarrow> controller \<Rightarrow> world \<Rightarrow>
   (error + chunk_metrics) \<times> controller \<times> world" where
  "attempt_loop e index chunk rate provider_settings previous_chunk_complete attempts st w =
     (case try_chunk e st w index chunk rate provider_settings previous_chunk_complete of
        (Inr metric, st', w') \<Rightarrow> (Inr metric, st', w')
      | (Inl err, st', w') \<Rightarrow>
          if err = ProviderAuthError then (Inl err, st', w')
          else if err = ProviderConnectionError then (Inl err, st', w')
          else if is_transient err then
            (if int (Suc attempts) > max_retries st' then (Inl err, st', w')
             else
               (let delay = compute_backoff (int (Suc attempts)) (retry_after_of err)
                              (jitter_at e (jitter_draws w'));
                    w'' = emit (Sleep delay) (w'\<lparr>jitter_draws := Suc (jitter_draws w')\<rparr>)
                in attempt_loop e index chunk rate provider_settings previous_chunk_complete
                     (Suc attempts) st' w''))
          else (Inl err, st', w'))"
  by pat_completeness auto
termination
  apply (relation "measure (\<lambda>(e, index, chunk, rate, ps, prev, attempts, st, w).
                            nat (max_retries st + 1 - int attempts))")
   apply simp
  apply (auto dest!: try_chunk_max_retries [OF sym])
  done

text \<open>The \<open>for index, chunk in enumerate(chunks)\<close> loop of \<open>run\<close>.\<close>

fun chunk_loop ::
  "env \<Rightarrow> int \<Rightarrow> settings \<Rightarrow> (nat \<times> string) list \<Rightarrow> rat option \<Rightarrow> controller \<Rightarrow> world \<Rightarrow>
   (error + unit) \<times> controller \<times> world" where
  "chunk_loop e rate provider_settings [] previous_chunk_complete st w = (Inr (), st, w)"
| "chunk_loop e rate provider_settings (ic # rest) previous_chunk_complete st w =
     (case attempt_loop e (fst ic) (snd ic) rate provider_settings previous_chunk_complete 0 st w of
        (Inl err, st', w') \<Rightarrow> (Inl err, st', w')
      | (Inr metric, st', w') \<Rightarrow>
          chunk_loop e rate provider_settings rest (Some (chunk_complete metric)) st' w')"

text \<open>The \<open>finally\<close> clause of \<open>run\<close>: \<open>flush_and_close\<close>, then \<open>close\<close>; an
  error raised here replaces the one that was on its way.\<close>

definition release :: "env \<Rightarrow> world \<Rightarrow> (error + unit) \<times> world" where
  "release e w =
     (case flush_raises e of
        Some err \<Rightarrow> (Inl err, emit FlushAndClose w)
      | None \<Rightarrow>
          (case close_raises e of
             Some err \<Rightarrow> (Inl err, emit ProviderClose (emit FlushAndClose w))
           | None \<Rightarrow> (Inr (), emit ProviderClose (emit FlushAndClose w))))"

text \<open>\<open>StreamingController.run\<close>\<close>

definition run ::
  "env \<Rightarrow> controller \<Rightarrow> world \<Rightarrow> string \<Rightarrow> int \<Rightarrow> int option \<Rightarrow> settings \<Rightarrow>
   (error + chunk_metrics list) \<times> controller \<times> world" where
  "run e st w text rate max_chars provider_settings =
     (let chunk_limit = (case max_chars of None \<Rightarrow> chunk_max_chars st | Some m \<Rightarrow> m) in
      case chunker e text chunk_limit of
        Inl err \<Rightarrow> (Inl err, st, w)
      | Inr chunks \<Rightarrow>
          if chunks = [] then (Inr (metrics st), st, w)
          else
            (case connect_raises e of
               Some err \<Rightarrow> (Inl err, st, emit Connect w)
             | None \<Rightarrow>
                 (case start_raises e of
                    Some err \<Rightarrow> (Inl err, st, emit (Start rate) (emit Connect w))
                  | None \<Rightarrow>
                      (case chunk_loop e rate provider_settings (enumerate 0 chunks) None st
                              (emit (Start rate) (emit Connect w)) of
                         (res, st', w') \<Rightarrow>
                           (case release e w' of
                              (Inl err, w'') \<Rightarrow> (Inl err, st', w'')
                            | (Inr u, w'') \<Rightarrow>
                                (case res of
                                   Inl err \<Rightarrow> (Inl err, st', w'')
                                 | Inr u' \<Rightarrow> (Inr (metrics st'), st', w'')))))))"

section \<open>Example collaborators\<close>

text \<open>
  A provider that streams one two-byte frame per call and never fails, a clock that
  advances by 50 ms per reading, collaborators that raise nothing, and an interpreter
  that allows a hundred more nested calls; and variations of it.
\<close>

definition example_env :: env where
  "example_env =
     \<lparr>library = example_lib,
      chunker = chunk_text,
      clock_at = (\<lambda>n. of_nat n / 20),
      wall_at = (\<lambda>n. 5),
      jitter_at = (\<lambda>n. 1 / 100),
      stream_at = (\<lambda>n chunk. \<lparr>items = [Frame \<lparr>frame_pcm = ''ab'', frame_rate = 16000\<rparr>],
                                failure = None\<rparr>),
      connect_raises = None,
      start_raises = None,
      submit_raises = (\<lambda>frame. None),
      flush_raises = None,
      close_raises = None,
      stack_depth = 100\<rparr>"

text \<open>A provider whose first call of \<open>stream\<close> raises a rate-limit error.\<close>

definition flaky_env :: env where
  "flaky_env =
     example_env\<lparr>stream_at :=
       (\<lambda>n chunk. if n = 0 then \<lparr>items = [], failure = Some (ProviderRateLimitError (Some (1 / 20)))\<rparr>
                   else \<lparr>items = [Frame \<lparr>frame_pcm = ''ab'', frame_rate = 16000\<rparr>], failure = None\<rparr>)\<rparr>"

text \<open>A playback sink that fails to start.\<close>

definition no_device_env :: env where
  "no_device_env = example_env\<lparr>start_raises := Some AudioDeviceError\<rparr>"

definition new_world :: world where
  "new_world = \<lparr>trace = [], disk = empty_fs, clock_reads = 0, cache_ops = 0, jitter_draws = 0,
                 stream_calls = 0\<rparr>"

text \<open>\<open>StreamingController(provider, playback, metrics=[])\<close> with the defaults of
  \<open>__init__\<close>, and the same with a phrase cache and voice and model identifiers.\<close>

definition new_controller :: controller where
  "new_controller =
     \<lparr>metrics = [], cache = None, cache_params = no_settings, max_retries = 2,
      prebuffer_ms = 80, chunk_max_chars = 200, recent_metrics = [], recent_underruns = [],
      pending_underrun = False\<rparr>"

definition cached_controller :: controller where
  "cached_controller =
     new_controller\<lparr>cache := Some example_cache,
                    cache_params := no_settings\<lparr>voice_id := Some ''voice'', model_id := Some ''model''\<rparr>\<rparr>"

text \<open>
  The 95th percentile of five values, as a closed formula: between the two largest,
  one fifth of the way below the largest.
\<close>

definition p95_of_five :: "rat list \<Rightarrow> rat" where
  "p95_of_five vals = sort vals ! 3 * (1 / 5) + sort vals ! 4 * (4 / 5)"

text \<open>The last five entries of the rolling window.\<close>

definition last_five :: "'a list \<Rightarrow> 'a list" where
  "last_five xs = drop (length xs - 5) xs"

text \<open>
  A controller in the state the default configuration reaches after three reductions
  of the chunk length (200, 160, 128, 102) with a prebuffer configured at 190 ms, three
  underruns in the window and five chunks whose first frame took a second.
\<close>

definition slow_metric :: chunk_metrics where
  "slow_metric = \<lparr>chunk_index = 0, char_len = 50, request_start = 0, first_frame = 1,
                   playback_start = 21 / 20, chunk_complete = 13 / 10\<rparr>"

definition hot_controller :: controller where
  "hot_controller =
     new_controller\<lparr>prebuffer_ms := 190, chunk_max_chars := 102,
                    recent_metrics := [slow_metric, slow_metric, slow_metric, slow_metric, slow_metric],
                    recent_underruns := [True, False, True, False, True]\<rparr>"

section \<open>Properties of the chunker\<close>

declare slice_loop.simps [simp del]

lemma slice_loop_more:
  "index + w < length token \<Longrightarrow> 0 < w \<Longrightarrow>
   slice_loop token m w index = (take w (drop index token) @ ''-'') # slice_loop token m w (index + w)"
  by (subst slice_loop.simps) (simp add: Let_def)

lemma slice_loop_done: "length token \<le> index \<Longrightarrow> slice_loop token m w index = []"
  by (subst slice_loop.simps) simp

lemma slice_loop_final:
  "index < length token \<Longrightarrow> length token \<le> index + w \<Longrightarrow> int w < m \<Longrightarrow>
   slice_loop token m w index = [drop index token]"
  by (subst slice_loop.simps) (simp add: Let_def slice_loop_done)

lemma slice_loop_length:
  "index < length token \<Longrightarrow> 0 < w \<Longrightarrow> int w < m \<Longrightarrow>
   length (slice_loop token m w index) = (length token - index - 1) div w + 1"
proof (induction token m w index rule: slice_loop.induct)
  case (1 token m w index)
  show ?case
  proof (cases "index + w < length token")
    case True
    have "length (slice_loop token m w (index + w)) = (length token - (index + w) - 1) div w + 1"
      using 1 True by (simp add: Let_def)
    moreover have "(length token - index - 1) div w = (length token - (index + w) - 1) div w + 1"
    proof -
      have "length token - index - 1 = (length token - (index + w) - 1) + w"
        using True by simp
      then show ?thesis using \<open>0 < w\<close> by (metis div_add_self2 less_numeral_extra(3))
    qed
    ultimately show ?thesis using True "1.prems" by (simp add: slice_loop_more)
  next
    case False
    then have fin: "slice_loop token m w index = [drop index token]"
      using 1 by (simp add: slice_loop_final)
    have "length token - index - 1 < w"
      using False 1 by auto
    then show ?thesis using fin by simp
  qed
qed

lemma slice_loop_nth:
  "index < length token \<Longrightarrow> 0 < w \<Longrightarrow> int w < m \<Longrightarrow>
   i + 1 < length (slice_loop token m w index) \<Longrightarrow>
   slice_loop token m w index ! i = take w (drop (index + i * w) token) @ ''-''"
proof (induction token m w index arbitrary: i rule: slice_loop.induct)
  case (1 token m w index)
  show ?case
  proof (cases "index + w < length token")
    case True
    note unf = slice_loop_more [OF True \<open>0 < w\<close>, of m]
    show ?thesis
    proof (cases i)
      case 0
      then show ?thesis by (simp add: unf)
    next
      case (Suc j)
      have "j + 1 < length (slice_loop token m w (index + w))"
        using "1.prems" Suc by (simp add: unf)
      then have "slice_loop token m w (index + w) ! j = take w (drop (index + w + j * w) token) @ ''-''"
        using 1 True by (simp add: Let_def)
      then show ?thesis using Suc by (simp add: unf add.assoc add.commute)
    qed
  next
    case False
    then have "slice_loop token m w index = [drop index token]"
      using 1 by (simp add: slice_loop_final)
    then show ?thesis using "1.prems" by simp
  qed
qed

lemma slice_loop_last:
  "index < length token \<Longrightarrow> 0 < w \<Longrightarrow> int w < m \<Longrightarrow>
   last (slice_loop token m w index) =
     drop (index + (length (slice_loop token m w index) - 1) * w) token"
proof (induction token m w index rule: slice_loop.induct)
  case (1 token m w index)
  show ?case
  proof (cases "index + w < length token")
    case True
    note unf = slice_loop_more [OF True \<open>0 < w\<close>, of m]
    have ne: "slice_loop token m w (index + w) \<noteq> []"
      using slice_loop_length [of "index + w" token w m] True "1.prems" by auto
    obtain k where k: "length (slice_loop token m w (index + w)) = Suc k"
      using ne by (cases "slice_loop token m w (index + w)") auto
    have "last (slice_loop token m w (index + w)) =
            drop (index + w + (length (slice_loop token m w (index + w)) - 1) * w) token"
      using 1 True by (simp add: Let_def)
    then show ?thesis using ne
      by (simp add: unf k add.assoc add.commute)
  next
    case False
    then have "slice_loop token m w index = [drop index token]"
      using 1 by (simp add: slice_loop_final)
    then show ?thesis by simp
  qed
qed

lemma slice_loop_bound:
  "0 < w \<Longrightarrow> int w < m \<Longrightarrow> p \<in> set (slice_loop token m w index) \<Longrightarrow> length p \<le> w + 1"
proof (induction token m w index rule: slice_loop.induct)
  case (1 token m w index)
  show ?case
  proof (cases "index < length token")
    case False
    then show ?thesis using "1.prems" by (simp add: slice_loop_done)
  next
    case inside: True
    show ?thesis
    proof (cases "index + w < length token")
      case True
      then have "p = take w (drop index token) @ ''-'' \<or> p \<in> set (slice_loop token m w (index + w))"
        using "1.prems" by (simp add: slice_loop_more)
      then show ?thesis
      proof
        assume "p = take w (drop index token) @ ''-''"
        then show ?thesis by simp
      next
        assume "p \<in> set (slice_loop token m w (index + w))"
        then show ?thesis using "1.IH"(1) [OF _ refl refl True] inside "1.prems" by simp
      qed
    next
      case False
      then have "slice_loop token m w index = [drop index token]"
        using 1 inside by (simp add: slice_loop_final)
      then show ?thesis using "1.prems" False by auto
    qed
  qed
qed

lemma split_token_bound:
  assumes "1 \<le> m" "p \<in> set (split_token token m)"
  shows "int (length p) \<le> m"
proof (cases "int (length token) \<le> m")
  case True
  then show ?thesis using assms by (simp add: split_token_def)
next
  case long: False
  show ?thesis
  proof (cases "m \<le> 1")
    case True
    then show ?thesis using assms long by (auto simp: split_token_def)
  next
    case False
    then have "p \<in> set (slice_loop token m (nat (m - 1)) 0)"
      using assms long by (simp add: split_token_def)
    then have "length p \<le> nat (m - 1) + 1"
      using False by (intro slice_loop_bound [of "nat (m - 1)" m p token 0]) auto
    then show ?thesis using False by linarith
  qed
qed

lemma split_token_36:
  assumes len: "length token = 36"
  shows "split_token token 10 =
        [take 9 token @ ''-'', take 9 (drop 9 token) @ ''-'', take 9 (drop 18 token) @ ''-'',
         drop 27 token]"
proof -
  have a: "slice_loop token 10 9 0 = (take 9 (drop 0 token) @ ''-'') # slice_loop token 10 9 (0 + 9)"
    by (rule slice_loop_more) (simp_all add: len)
  have b: "slice_loop token 10 9 9 = (take 9 (drop 9 token) @ ''-'') # slice_loop token 10 9 (9 + 9)"
    by (rule slice_loop_more) (simp_all add: len)
  have c: "slice_loop token 10 9 18 = (take 9 (drop 18 token) @ ''-'') # slice_loop token 10 9 (18 + 9)"
    by (rule slice_loop_more) (simp_all add: len)
  have d: "slice_loop token 10 9 27 = [drop 27 token]"
    by (rule slice_loop_final) (simp_all add: len)
  show ?thesis
    using a b c d by (simp add: split_token_def len)
qed

lemma split_token_long:
  assumes h: "2 \<le> m" "m < int (length token)"
  shows "length (split_token token m) = (length token - 1) div nat (m - 1) + 1"
    and "\<forall>i. i + 1 < length (split_token token m) \<longrightarrow>
          split_token token m ! i = take (nat (m - 1)) (drop (i * nat (m - 1)) token) @ ''-''
        \<and> i * nat (m - 1) + nat (m - 1) < length token"
    and "last (split_token token m) = drop ((length (split_token token m) - 1) * nat (m - 1)) token"
    and "0 < length (last (split_token token m))"
    and "length (last (split_token token m)) \<le> nat (m - 1)"
proof -
  define w where "w = nat (m - 1)"
  have w: "0 < w" "int w < m" "0 < length token" using h by (auto simp: w_def)
  have st: "split_token token m = slice_loop token m w 0"
    using h by (simp add: split_token_def w_def)
  have len: "length (slice_loop token m w 0) = (length token - 1) div w + 1"
    using slice_loop_length [of 0 token w m] w by simp
  show "length (split_token token m) = (length token - 1) div nat (m - 1) + 1"
    using len st w_def by simp
  have lastp: "last (slice_loop token m w 0) = drop ((length token - 1) div w * w) token"
    using slice_loop_last [of 0 token w m] w len by simp
  show "last (split_token token m) = drop ((length (split_token token m) - 1) * nat (m - 1)) token"
    using lastp len st w_def by simp
  have le: "(length token - 1) div w * w \<le> length token - 1"
    by simp
  have "(length token - 1) mod w < w" using w(1) by simp
  moreover have "(length token - 1) div w * w + (length token - 1) mod w = length token - 1"
    by simp
  ultimately have gt: "length token - 1 < (length token - 1) div w * w + w"
    by linarith
  have ll: "length (last (split_token token m)) = length token - (length token - 1) div w * w"
    using lastp st by simp
  show "0 < length (last (split_token token m))"
    using ll le w by linarith
  show "length (last (split_token token m)) \<le> nat (m - 1)"
    unfolding ll w_def [symmetric] using gt w by linarith
  show "\<forall>i. i + 1 < length (split_token token m) \<longrightarrow>
          split_token token m ! i = take (nat (m - 1)) (drop (i * nat (m - 1)) token) @ ''-''
        \<and> i * nat (m - 1) + nat (m - 1) < length token"
  proof (intro allI impI conjI)
    fix i assume i: "i + 1 < length (split_token token m)"
    then have "i + 1 < length (slice_loop token m w 0)" using st by simp
    then have "slice_loop token m w 0 ! i = take w (drop (0 + i * w) token) @ ''-''"
      using w by (intro slice_loop_nth) auto
    then show "split_token token m ! i = take (nat (m - 1)) (drop (i * nat (m - 1)) token) @ ''-''"
      using st w_def by simp
    have "i + 1 \<le> (length token - 1) div w" using i len st by simp
    then have "(i + 1) * w \<le> (length token - 1) div w * w" by (rule mult_le_mono1)
    then have "(i + 1) * w \<le> length token - 1" using le by linarith
    then have "i * w + w < length token" using w by simp
    then show "i * nat (m - 1) + nat (m - 1) < length token"
      unfolding w_def .
  qed
qed

text \<open>
  Claim C9. For \<open>max_chars \<ge> 2\<close>, a token longer than \<open>max_chars\<close> is cut by
  \<open>_split_token\<close> into slices of width \<open>max_chars - 1\<close>: there are
  \<open>(len - 1) div (max_chars - 1) + 1\<close> pieces, every piece but the last is a full
  slice followed by a hyphen, and the last piece is the non-empty rest of the token
  (at most \<open>max_chars - 1\<close> characters) with nothing appended. For \<open>max_chars \<le> 1\<close>
  a token longer than \<open>max_chars\<close> comes back one character per piece. A token of
  36 characters with \<open>max_chars = 10\<close> gives exactly four pieces, three with a
  hyphen and the last without.
\<close>

theorem split_token_slices:
  "(2 \<le> m \<and> m < int (length token) \<longrightarrow>
      length (split_token token m) = (length token - 1) div nat (m - 1) + 1
    \<and> (\<forall>i. i + 1 < length (split_token token m) \<longrightarrow>
          split_token token m ! i = take (nat (m - 1)) (drop (i * nat (m - 1)) token) @ ''-''
        \<and> i * nat (m - 1) + nat (m - 1) < length token)
    \<and> last (split_token token m) = drop ((length (split_token token m) - 1) * nat (m - 1)) token
    \<and> 0 < length (last (split_token token m))
    \<and> length (last (split_token token m)) \<le> nat (m - 1))
 \<and> (m \<le> 1 \<and> m < int (length token) \<longrightarrow> split_token token m = map (\<lambda>char. [char]) token)
 \<and> (length token = 36 \<longrightarrow>
      split_token token 10 =
        [take 9 token @ ''-'', take 9 (drop 9 token) @ ''-'', take 9 (drop 18 token) @ ''-'',
         drop 27 token])"
proof (intro conjI impI)
  assume "m \<le> 1 \<and> m < int (length token)"
  then show "split_token token m = map (\<lambda>char. [char]) token"
    by (simp add: split_token_def)
next
  assume "length token = 36"
  then show "split_token token 10 =
        [take 9 token @ ''-'', take 9 (drop 9 token) @ ''-'', take 9 (drop 18 token) @ ''-'',
         drop 27 token]"
    by (rule split_token_36)
next
  assume h: "2 \<le> m \<and> m < int (length token)"
  then show "length (split_token token m) = (length token - 1) div nat (m - 1) + 1"
    using split_token_long(1) by blast
next
  assume h: "2 \<le> m \<and> m < int (length token)"
  then show "\<forall>i. i + 1 < length (split_token token m) \<longrightarrow>
          split_token token m ! i = take (nat (m - 1)) (drop (i * nat (m - 1)) token) @ ''-''
        \<and> i * nat (m - 1) + nat (m - 1) < length token"
    using split_token_long(2) by blast
next
  assume h: "2 \<le> m \<and> m < int (length token)"
  then show "last (split_token token m) = drop ((length (split_token token m) - 1) * nat (m - 1)) token"
    using split_token_long(3) by blast
next
  assume h: "2 \<le> m \<and> m < int (length token)"
  then show "0 < length (last (split_token token m))"
    using split_token_long(4) by blast
next
  assume h: "2 \<le> m \<and> m < int (length token)"
  then show "length (last (split_token token m)) \<le> nat (m - 1)"
    using split_token_long(5) by blast
qed

theorem split_token_slices_witness:
  "(2::int) \<le> 10 \<and> (10::int) < int (length ''abcdefghijklmnopqrstuvwxyz0123456789'')
   \<and> length ''abcdefghijklmnopqrstuvwxyz0123456789'' = 36
   \<and> split_token ''abcdefghijklmnopqrstuvwxyz0123456789'' 10 =
        [''abcdefghi-'', ''jklmnopqr-'', ''stuvwxyz0-'', ''123456789'']
   \<and> length (split_token ''abcdefghijklmnopqrstuvwxyz0123456789'' 10) = 4
   \<and> (1::int) \<le> 1 \<and> (1::int) < int (length ''abc'')
   \<and> split_token ''abc'' 1 = [''a'', ''b'', ''c'']"
proof -
  let ?t = "''abcdefghijklmnopqrstuvwxyz0123456789''"
  have len: "length ?t = 36" by simp
  have a: "split_token ?t 10 = [take 9 ?t @ ''-'', take 9 (drop 9 ?t) @ ''-'', take 9 (drop 18 ?t) @ ''-'', drop 27 ?t]"
    using split_token_slices [of 10 ?t] len by blast
  have b: "length (split_token ?t 10) = (length ?t - 1) div nat (10 - 1) + 1"
    using split_token_slices [of 10 ?t] len by simp
  have c: "split_token ''abc'' 1 = map (\<lambda>char. [char]) ''abc''"
    using split_token_slices [of 1 "''abc''"] by simp
  show ?thesis
    using a b c by simp
qed

lemma pack_fragment_inv:
  assumes "pack_inv m st" "int (length f) \<le> m"
  shows "pack_inv m (pack_fragment m st f)"
proof (cases "snd st = []")
  case True
  then show ?thesis using assms by (simp add: pack_fragment_def pack_inv_def overshoot_ok_def)
next
  case False
  show ?thesis
  proof (cases "int (length (snd st)) + 1 + int (length f) \<le> m")
    case True
    then show ?thesis using assms False
      by (simp add: pack_fragment_def pack_inv_def overshoot_ok_def Let_def)
  next
    case over: False
    show ?thesis
    proof (cases "int (length (snd st)) + 1 + int (length f) - m < int (length f)")
      case True
      then have "int (length (snd st)) + 1 < m" by simp
      then have "overshoot_ok m (snd st @ '' '' @ f)"
        unfolding overshoot_ok_def using assms(2) by blast
      then show ?thesis using assms False over True
        by (simp add: pack_fragment_def pack_inv_def Let_def)
    next
      case False
      then show ?thesis using assms \<open>snd st \<noteq> []\<close> over
        by (simp add: pack_fragment_def pack_inv_def overshoot_ok_def Let_def)
    qed
  qed
qed

lemma foldl_pack_fragment_inv:
  "pack_inv m st \<Longrightarrow> \<forall>f \<in> set fs. int (length f) \<le> m \<Longrightarrow>
   pack_inv m (foldl (pack_fragment m) st fs)"
  by (induction fs arbitrary: st) (simp_all add: pack_fragment_inv)

lemma pack_token_inv:
  assumes "1 \<le> m" "pack_inv m st"
  shows "pack_inv m (pack_token m st token)"
  using assms by (simp add: pack_token_def foldl_pack_fragment_inv split_token_bound)

lemma foldl_pack_token_inv:
  "1 \<le> m \<Longrightarrow> pack_inv m st \<Longrightarrow> pack_inv m (foldl (pack_token m) st tokens)"
  by (induction tokens arbitrary: st) (simp_all add: pack_token_inv)

lemma split_sentence_ok:
  assumes "1 \<le> m" "c \<in> set (split_sentence sentence m)"
  shows "overshoot_ok m c"
proof -
  have "pack_inv m ([], [])" by (simp add: pack_inv_def overshoot_ok_def) (use assms in linarith)
  then have "pack_inv m (foldl (pack_token m) ([], []) (split_space [] sentence))"
    using assms(1) by (rule foldl_pack_token_inv [rotated])
  then show ?thesis using assms(2)
    by (auto simp: split_sentence_def pack_inv_def Let_def list_all_iff split: if_splits)
qed

lemma chunk_text_ok:
  assumes "chunk_text text m = Inr chunks" "c \<in> set chunks"
  shows "overshoot_ok m c"
proof -
  have m: "1 \<le> m" using assms(1) by (auto simp: chunk_text_def split: if_splits)
  from assms obtain s where "c \<in> set (split_sentence s m)"
    by (auto simp: chunk_text_def Let_def split: if_splits)
  then show ?thesis using m by (rule split_sentence_ok [rotated])
qed

text \<open>
  Claim C3 (as amended). Every chunk that \<open>chunk_text\<close> returns is either within
  \<open>max_chars\<close>, or it is a part shorter than \<open>max_chars - 1\<close> followed by a space
  and one more fragment of at most \<open>max_chars\<close> characters (the overshoot that
  \<open>_split_sentence\<close> allows); in every case its length is at most
  \<open>2 * max_chars - 1\<close>, which for \<open>max_chars = 1\<close> is \<open>max_chars\<close> itself.
\<close>

theorem chunk_text_overshoot_bound:
  assumes "chunk_text text max_chars = Inr chunks" "c \<in> set chunks"
  shows "(int (length c) \<le> max_chars \<or>
          (\<exists>p f. c = p @ '' '' @ f \<and> int (length p) + 1 < max_chars \<and> int (length f) \<le> max_chars))
       \<and> int (length c) \<le> 2 * max_chars - 1
       \<and> 1 \<le> max_chars"
proof -
  have m: "1 \<le> max_chars" using assms(1) by (auto simp: chunk_text_def split: if_splits)
  have ok: "overshoot_ok max_chars c" using assms by (rule chunk_text_ok)
  then have "int (length c) \<le> 2 * max_chars - 1"
    using m by (auto simp: overshoot_ok_def)
  then show ?thesis using ok m unfolding overshoot_ok_def by blast
qed

theorem chunk_text_overshoot_bound_witness:
  "chunk_text ''a bbbbb cc'' 5 = Inr [''a bbbbb'', ''cc'']
   \<and> ''a bbbbb'' \<in> set [''a bbbbb'', ''cc'']
   \<and> int (length ''a bbbbb'') \<le> 2 * 5 - 1"
proof -
  have a: "chunk_text ''a bbbbb cc'' 5 = Inr [''a bbbbb'', ''cc'']" by code_simp
  have b: "''a bbbbb'' \<in> set [''a bbbbb'', ''cc'']" by simp
  show ?thesis using chunk_text_overshoot_bound [OF a b] a by simp
qed

text \<open>
  The bound \<open>len(chunk) \<le> max_chars\<close> of claim C3 as stated fails on the input of the
  repository's own test \<open>test_max_length_boundary\<close>: the second chunk has 31
  characters for \<open>max_chars = 30\<close>.
\<close>

theorem chunk_text_bound_counterexample:
  "chunk_text ''Sentence one. Sentence two is slightly longer but still fine.'' 30 =
     Inr [''Sentence one.'', ''Sentence two is slightly longer'', ''but still fine.'']
   \<and> \<not> int (length ''Sentence two is slightly longer'') \<le> 30"
proof -
  have "chunk_text ''Sentence one. Sentence two is slightly longer but still fine.'' 30 =
     Inr [''Sentence one.'', ''Sentence two is slightly longer'', ''but still fine.'']"
    by code_simp
  then show ?thesis by simp
qed

section \<open>Properties of the backoff delay\<close>

lemma pow_int_nat: "1 \<le> a \<Longrightarrow> power_int (2::rat) (a - 1) = 2 ^ nat (a - 1)"
  by (simp add: power_int_def)

lemma base_pos: "3 / 10 \<le> backoff_base a"
proof -
  have "(1::rat) \<le> 2 ^ nat (a - 1)" by simp
  then show ?thesis unfolding backoff_base_def by linarith
qed

lemma base_mono: "a \<le> b \<Longrightarrow> backoff_base a \<le> backoff_base b"
  unfolding backoff_base_def
  by (simp add: power_increasing)

lemma backoff_None: "1 \<le> a \<Longrightarrow> compute_backoff a None j = backoff_base a + j"
  unfolding compute_backoff_def backoff_base_def Let_def by (simp only: pow_int_nat) simp

lemma backoff_Some: 
  assumes "1 \<le> a"
  shows "compute_backoff a (Some r) j = max r (backoff_base a) + j"
proof -
  have "compute_backoff a (Some r) j =
          (if r \<noteq> 0 then max r (backoff_base a) + j else backoff_base a + j)"
    unfolding compute_backoff_def backoff_base_def Let_def
    by (simp only: pow_int_nat [OF assms]) simp
  moreover have "max 0 (backoff_base a) = backoff_base a"
    using base_pos [of a] by (simp add: max_def)
  ultimately show ?thesis by auto
qed

lemma backoff_free_mono_aux: "(x::rat) \<le> y \<Longrightarrow> max r x \<le> max r y"
  by (simp add: max_def)

lemma backoff_free_mono:
  assumes "1 \<le> a" "a \<le> b"
  shows "compute_backoff a h 0 \<le> compute_backoff b h 0"
proof (cases h)
  case None
  then show ?thesis using assms base_mono [of a b] by (simp add: backoff_None)
next
  case (Some r)
  then show ?thesis using assms base_mono [of a b] by (simp add: backoff_Some backoff_free_mono_aux)
qed

lemma backoff_jitter: "1 \<le> a \<Longrightarrow> compute_backoff a h j = compute_backoff a h 0 + j"
  by (cases h) (simp_all add: backoff_Some backoff_None)

lemma compute_backoff_parts:
  assumes "1 \<le> a" "0 \<le> ja" "ja \<le> 1 / 10" "0 \<le> jb" "jb \<le> 1 / 10"
  shows "compute_backoff a (Some r) ja = max r ((3 / 10) * 2 ^ nat (a - 1)) + ja"
    and "compute_backoff a None ja = (3 / 10) * 2 ^ nat (a - 1) + ja"
    and "r \<le> compute_backoff a (Some r) ja"
    and "a \<le> b \<Longrightarrow> compute_backoff a h 0 \<le> compute_backoff b h 0"
    and "a \<le> b \<Longrightarrow> compute_backoff a h ja - 1 / 10 \<le> compute_backoff b h jb"
    and "a \<le> b \<Longrightarrow> h = None \<or> (\<exists>r'. h = Some r' \<and> r' + 1 / 10 \<le> (3 / 10) * 2 ^ nat (b - 1)) \<Longrightarrow> a < b \<Longrightarrow>
         compute_backoff a h ja \<le> compute_backoff b h jb"
proof -
  show "compute_backoff a (Some r) ja = max r ((3 / 10) * 2 ^ nat (a - 1)) + ja"
    using assms(1) by (simp add: backoff_Some backoff_base_def)
  show "compute_backoff a None ja = (3 / 10) * 2 ^ nat (a - 1) + ja"
    using assms(1) by (simp add: backoff_None backoff_base_def)
  show "r \<le> compute_backoff a (Some r) ja"
    using assms(1,2) by (simp add: backoff_Some max_def)
  show "a \<le> b \<Longrightarrow> compute_backoff a h 0 \<le> compute_backoff b h 0"
    using assms(1) by (rule backoff_free_mono)
  show "compute_backoff a h ja - 1 / 10 \<le> compute_backoff b h jb" if "a \<le> b"
  proof -
    have "compute_backoff a h 0 \<le> compute_backoff b h 0"
      using assms(1) that by (rule backoff_free_mono)
    moreover have "compute_backoff a h ja = compute_backoff a h 0 + ja"
      using assms(1) by (rule backoff_jitter)
    moreover have "compute_backoff b h jb = compute_backoff b h 0 + jb"
      using assms(1) that by (intro backoff_jitter) simp
    ultimately show ?thesis using assms by linarith
  qed
  show "compute_backoff a h ja \<le> compute_backoff b h jb"
    if "a \<le> b" and h: "h = None \<or> (\<exists>r'. h = Some r' \<and> r' + 1 / 10 \<le> (3 / 10) * 2 ^ nat (b - 1))" and "a < b"
  proof -
    have b1: "1 \<le> b" using assms(1) that by simp
    have dbl: "2 * backoff_base a \<le> backoff_base b"
    proof -
      have "backoff_base (a + 1) \<le> backoff_base b" using \<open>a < b\<close> by (intro base_mono) simp
      moreover have e: "nat a = Suc (nat (a - 1))" using assms(1) by arith
      have "backoff_base (a + 1) = 2 * backoff_base a"
        by (simp add: backoff_base_def e)
      ultimately show ?thesis by simp
    qed
    have gap: "backoff_base a + 1 / 10 \<le> backoff_base b"
      using dbl base_pos [of a] by linarith
    from h show ?thesis
    proof
      assume "h = None"
      then show ?thesis using gap assms b1 by (simp add: backoff_None)
    next
      assume "\<exists>r'. h = Some r' \<and> r' + 1 / 10 \<le> (3 / 10) * 2 ^ nat (b - 1)"
      then obtain r' where r': "h = Some r'" "r' + 1 / 10 \<le> backoff_base b"
        by (auto simp: backoff_base_def)
      then show ?thesis using gap assms b1 by (simp add: backoff_Some max_def)
    qed
  qed
qed


text \<open>
  Claim C7 (as amended). For every attempt \<open>a \<ge> 1\<close>, every hint \<open>r\<close> and jitter
  \<open>j\<close> in \<open>[0, 0.1]\<close>, the delay is \<open>max(r, 0.3 * 2^(a-1)) + j\<close> (and
  \<open>0.3 * 2^(a-1) + j\<close> without a hint), so it is never less than the hint. For a
  fixed hint the delay without its jitter is non-decreasing in the attempt number; with
  jitter, a later attempt's delay is more than the earlier one's minus 0.1, and it is
  not smaller at all when there is no hint or the hint plus 0.1 is at most the later
  attempt's base.
\<close>

theorem compute_backoff_bounds:
  assumes "1 \<le> a" "0 \<le> ja" "ja \<le> 1 / 10" "0 \<le> jb" "jb \<le> 1 / 10"
  shows "compute_backoff a (Some r) ja = max r ((3 / 10) * 2 ^ nat (a - 1)) + ja
       \<and> compute_backoff a None ja = (3 / 10) * 2 ^ nat (a - 1) + ja
       \<and> r \<le> compute_backoff a (Some r) ja
       \<and> (a \<le> b \<longrightarrow> compute_backoff a h 0 \<le> compute_backoff b h 0)
       \<and> (a \<le> b \<longrightarrow> compute_backoff a h ja - 1 / 10 \<le> compute_backoff b h jb)
       \<and> (a < b \<and> (h = None \<or> (\<exists>r'. h = Some r' \<and> r' + 1 / 10 \<le> (3 / 10) * 2 ^ nat (b - 1)))
            \<longrightarrow> compute_backoff a h ja \<le> compute_backoff b h jb)"
  using compute_backoff_parts [OF assms] by (intro conjI impI) (simp_all del: max_less_iff_conj)

theorem compute_backoff_bounds_witness:
  "(1::int) \<le> 1 \<and> (1::int) \<le> 2 \<and> (1::int) < 2
   \<and> (0::rat) \<le> 9 / 100 \<and> (9::rat) / 100 \<le> 1 / 10 \<and> (0::rat) \<le> 1 / 100 \<and> (1::rat) / 100 \<le> 1 / 10
   \<and> compute_backoff 1 (Some (1 / 2)) (9 / 100) = 1 / 2 + 9 / 100
   \<and> compute_backoff 1 None (9 / 100) = 3 / 10 + 9 / 100
   \<and> 1 / 2 \<le> compute_backoff 1 (Some (1 / 2)) (9 / 100)
   \<and> compute_backoff 1 (Some (1 / 2)) 0 \<le> compute_backoff 2 (Some (1 / 2)) 0
   \<and> compute_backoff 1 (Some (1 / 2)) (9 / 100) - 1 / 10 \<le> compute_backoff 2 (Some (1 / 2)) (1 / 100)
   \<and> compute_backoff 1 (Some (1 / 2)) (9 / 100) \<le> compute_backoff 2 (Some (1 / 2)) (1 / 100)"
proof -
  have j: "(0::rat) \<le> 9 / 100" "(9::rat) / 100 \<le> 1 / 10" "(0::rat) \<le> 1 / 100" "(1::rat) / 100 \<le> 1 / 10"
    by simp_all
  have a: "(1::int) \<le> 1" and ab: "(1::int) \<le> 2" and lt: "(1::int) < 2" by simp_all
  have h: "Some (1 / 2 :: rat) = None \<or> (\<exists>r'. Some (1 / 2 :: rat) = Some r' \<and> r' + 1 / 10 \<le> (3 / 10) * 2 ^ nat (2 - 1))"
    by (intro disjI2 exI [of _ "1 / 2"]) simp
  have "(3::rat) / 10 * 2 ^ nat (1 - 1) = 3 / 10" by simp
  then show ?thesis
    using compute_backoff_bounds [OF a j, of "1 / 2" 2 "Some (1 / 2)"] ab lt h j
    by (simp del: max_less_iff_conj)
qed

text \<open>
  Claim C7 as stated (delay non-decreasing in the attempt number for a fixed hint)
  fails when the hint dominates the base: with hint 5 s, attempt 1 with jitter 0.09
  waits 5.09 s and attempt 2 with jitter 0.01 waits 5.01 s.
\<close>

theorem compute_backoff_monotone_counterexample:
  "compute_backoff 2 (Some 5) (1 / 100) < compute_backoff 1 (Some 5) (9 / 100)"
  by (simp add: compute_backoff_def)

section \<open>Properties of the phrase cache\<close>

lemma paths_distinct: "fst (paths_for_key c key) \<noteq> snd (paths_for_key c key)"
  by (simp add: paths_for_key_def Let_def)

lemma put_writes:
  assumes "\<not> deny_write fs (fst (paths_for_key c key))" "\<not> deny_write fs (snd (paths_for_key c key))"
  shows "put lib c now key pcm_bytes rate fs =
           (Inr (), fs\<lparr>files := (files fs)(fst (paths_for_key c key) := Some pcm_bytes,
                                         snd (paths_for_key c key) := Some (json_dumps lib (meta_doc lib now pcm_bytes rate)))\<rparr>)"
  using assms by (simp add: put_def write_file_def Let_def meta_doc_def)

lemma remove_files_both:
  assumes "\<not> deny_unlink fs p" "\<not> deny_unlink fs q"
  shows "remove_files fs [p, q] = (Inr (), fs\<lparr>files := (files fs)(p := None, q := None)\<rparr>)"
proof -
  have "fs\<lparr>files := (files fs)(p := None, q := None)\<rparr> = fs" if "files fs p = None" "files fs q = None"
    using that by (simp add: fun_upd_idem)
  moreover have "fs\<lparr>files := (files fs)(p := None, q := None)\<rparr> = fs\<lparr>files := (files fs)(q := None)\<rparr>"
    if "files fs p = None"
  proof -
    have "(files fs)(p := None) = files fs" using that by (simp add: fun_upd_idem)
    then show ?thesis by simp
  qed
  moreover have "fs\<lparr>files := (files fs)(p := None, q := None)\<rparr> = fs\<lparr>files := (files fs)(p := None)\<rparr>"
    if "((files fs)(p := None)) q = None"
  proof -
    have "((files fs)(p := None))(q := None) = (files fs)(p := None)"
      using that by (simp only: fun_upd_idem)
    then show ?thesis by simp
  qed
  ultimately show ?thesis using assms
    by (auto simp: unlink_def split: option.splits)
qed

lemma remove_and_miss_ok:
  assumes "\<not> deny_unlink fs (fst (paths_for_key c key))" "\<not> deny_unlink fs (snd (paths_for_key c key))"
  shows "remove_and_miss fs (fst (paths_for_key c key)) (snd (paths_for_key c key)) =
           (Inr None, without_entry c key fs)"
  using remove_files_both [OF assms] by (simp add: remove_and_miss_def without_entry_def)

lemma read_meta_after_put:
  assumes rt: "json_loads lib (json_dumps lib (meta_doc lib now pcm_bytes rate)) = Some (meta_doc lib now pcm_bytes rate)"
      and iso: "fromisoformat lib (isoformat lib \<lparr>wall_us = now, tz_offset_us = Some 0\<rparr>) =
                  Some \<lparr>wall_us = now, tz_offset_us = Some 0\<rparr>"
      and content: "files fs meta_path = Some (json_dumps lib (meta_doc lib now pcm_bytes rate))"
      and readable: "\<not> deny_read fs meta_path"
  shows "read_meta lib fs meta_path = Inr (\<lparr>wall_us = now, tz_offset_us = Some 0\<rparr>, rate)"
proof -
  have "read_file fs meta_path = Inr (json_dumps lib (meta_doc lib now pcm_bytes rate))"
    using content readable by (simp add: read_file_def)
  moreover have "subscript (meta_doc lib now pcm_bytes rate) ''created_at'' =
                   Inr (JStr (isoformat lib \<lparr>wall_us = now, tz_offset_us = Some 0\<rparr>))"
    by (simp add: subscript_def meta_doc_def)
  moreover have "subscript (meta_doc lib now pcm_bytes rate) ''sample_rate'' = Inr (JInt rate)"
    by (simp add: subscript_def meta_doc_def)
  ultimately show ?thesis
    using rt iso by (simp add: read_meta_def py_fromisoformat_def py_int_def)
qed

text \<open>
  Claim C8. With a library whose JSON and ISO-8601 functions read back what they wrote,
  and a file system that lets the two files of the entry be written and read:
  \<open>put(k, b, r)\<close> at time \<open>t0\<close> succeeds, and a \<open>get(k)\<close> at a time \<open>t1\<close> at which
  the age \<open>t1 - t0\<close> does not exceed the TTL (so immediately, for a TTL that is not
  negative) returns the entry with the bytes \<open>b\<close> and the rate \<open>r\<close>, leaving the files
  alone; a \<open>get(k)\<close> once the age exceeds the TTL returns absent and, the files being
  removable, neither the audio file nor the metadata file exists afterwards.
\<close>

theorem put_get_roundtrip:
  assumes "json_loads lib (json_dumps lib (meta_doc lib t0 b r)) = Some (meta_doc lib t0 b r)"
      and "fromisoformat lib (isoformat lib \<lparr>wall_us = t0, tz_offset_us = Some 0\<rparr>) =
             Some \<lparr>wall_us = t0, tz_offset_us = Some 0\<rparr>"
      and "\<not> deny_write fs (fst (paths_for_key c k))" "\<not> deny_write fs (snd (paths_for_key c k))"
      and "\<not> deny_read fs (fst (paths_for_key c k))" "\<not> deny_read fs (snd (paths_for_key c k))"
  shows "fst (put lib c t0 k b r fs) = Inr ()
       \<and> (t1 - t0 \<le> ttl_seconds c * 1000000 \<longrightarrow>
            get lib c t1 k (snd (put lib c t0 k b r fs)) =
              (Inr (Some \<lparr>pcm = b, sample_rate = r,
                           created_at = \<lparr>wall_us = t0, tz_offset_us = Some 0\<rparr>\<rparr>),
               snd (put lib c t0 k b r fs)))
       \<and> (ttl_seconds c * 1000000 < t1 - t0
            \<and> \<not> deny_unlink fs (fst (paths_for_key c k)) \<and> \<not> deny_unlink fs (snd (paths_for_key c k)) \<longrightarrow>
            fst (get lib c t1 k (snd (put lib c t0 k b r fs))) = Inr None
          \<and> \<not> path_exists (snd (get lib c t1 k (snd (put lib c t0 k b r fs)))) (fst (paths_for_key c k))
          \<and> \<not> path_exists (snd (get lib c t1 k (snd (put lib c t0 k b r fs)))) (snd (paths_for_key c k)))"
proof -
  let ?pcm = "fst (paths_for_key c k)" and ?meta = "snd (paths_for_key c k)"
  let ?fs1 = "fs\<lparr>files := (files fs)(?pcm := Some b, ?meta := Some (json_dumps lib (meta_doc lib t0 b r)))\<rparr>"
  have ne: "?pcm \<noteq> ?meta" by (rule paths_distinct)
  have put: "put lib c t0 k b r fs = (Inr (), ?fs1)"
    using assms(3,4) by (rule put_writes)
  have ex: "path_exists ?fs1 ?meta" "path_exists ?fs1 ?pcm"
    using ne by (simp_all add: path_exists_def)
  have meta: "read_meta lib ?fs1 ?meta = Inr (\<lparr>wall_us = t0, tz_offset_us = Some 0\<rparr>, r)"
    using assms(1,2) by (rule read_meta_after_put) (use assms(6) in simp_all)
  have pcm: "read_file ?fs1 ?pcm = Inr b"
    using ne assms(5) by (simp add: read_file_def)
  have fresh: "get lib c t1 k ?fs1 =
                 (Inr (Some \<lparr>pcm = b, sample_rate = r,
                              created_at = \<lparr>wall_us = t0, tz_offset_us = Some 0\<rparr>\<rparr>), ?fs1)"
    if "t1 - t0 \<le> ttl_seconds c * 1000000"
    using that ex meta pcm by (simp add: get_def Let_def is_expired_def)
  have stale: "get lib c t1 k ?fs1 = (Inr None, without_entry c k ?fs1)"
    if "ttl_seconds c * 1000000 < t1 - t0" "\<not> deny_unlink fs ?pcm" "\<not> deny_unlink fs ?meta"
  proof -
    have "remove_and_miss ?fs1 ?pcm ?meta = (Inr None, without_entry c k ?fs1)"
      by (rule remove_and_miss_ok) (use that in simp_all)
    then show ?thesis
      using that(1) ex meta by (simp add: get_def Let_def is_expired_def)
  qed
  have gone: "\<not> path_exists (without_entry c k ?fs1) ?pcm" "\<not> path_exists (without_entry c k ?fs1) ?meta"
    by (simp_all add: without_entry_def path_exists_def)
  show ?thesis
    using put fresh stale gone by simp
qed

theorem put_get_roundtrip_witness:
  "fst (put example_lib example_cache 5 ''abc123'' ''xy'' 3 empty_fs) = Inr ()
   \<and> (7 - 5 \<le> ttl_seconds example_cache * 1000000)
   \<and> get example_lib example_cache 7 ''abc123''
        (snd (put example_lib example_cache 5 ''abc123'' ''xy'' 3 empty_fs)) =
        (Inr (Some \<lparr>pcm = ''xy'', sample_rate = 3,
                     created_at = \<lparr>wall_us = 5, tz_offset_us = Some 0\<rparr>\<rparr>),
         snd (put example_lib example_cache 5 ''abc123'' ''xy'' 3 empty_fs))
   \<and> ttl_seconds example_cache * 1000000 < 70000000 - 5
   \<and> fst (get example_lib example_cache 70000000 ''abc123''
        (snd (put example_lib example_cache 5 ''abc123'' ''xy'' 3 empty_fs))) = Inr None
   \<and> \<not> path_exists (snd (get example_lib example_cache 70000000 ''abc123''
        (snd (put example_lib example_cache 5 ''abc123'' ''xy'' 3 empty_fs)))) ''cache/ab/abc123.pcm''
   \<and> \<not> path_exists (snd (get example_lib example_cache 70000000 ''abc123''
        (snd (put example_lib example_cache 5 ''abc123'' ''xy'' 3 empty_fs)))) ''cache/ab/abc123.json''"
proof -
  have rt: "json_loads example_lib (json_dumps example_lib (meta_doc example_lib 5 ''xy'' 3)) =
              Some (meta_doc example_lib 5 ''xy'' 3)"
    by (simp add: example_lib_def meta_doc_def eval_nat_numeral)
  have iso: "fromisoformat example_lib (isoformat example_lib \<lparr>wall_us = 5, tz_offset_us = Some 0\<rparr>) =
               Some \<lparr>wall_us = 5, tz_offset_us = Some 0\<rparr>"
    by (simp add: example_lib_def list_all_iff)
  have perms: "\<not> deny_write empty_fs p" "\<not> deny_read empty_fs p" "\<not> deny_unlink empty_fs p" for p
    by (simp_all add: empty_fs_def)
  have paths: "fst (paths_for_key example_cache ''abc123'') = ''cache/ab/abc123.pcm''"
              "snd (paths_for_key example_cache ''abc123'') = ''cache/ab/abc123.json''"
    by (simp_all add: paths_for_key_def example_cache_def)
  have ttl: "ttl_seconds example_cache = 60" by (simp add: example_cache_def)
  note th = put_get_roundtrip [OF rt iso perms(1) perms(1) perms(2) perms(2), of example_cache "''abc123''"]
  show ?thesis
    using th [of 7] th [of 70000000] perms(3) by (simp add: paths ttl)
qed

lemma get_handled:
  assumes ex: "path_exists fs (fst (paths_for_key c key))" "path_exists fs (snd (paths_for_key c key))"
      and h: "handled_failure lib c now key fs"
  shows "get lib c now key fs =
           remove_and_miss fs (fst (paths_for_key c key)) (snd (paths_for_key c key))"
proof -
  let ?pcm = "fst (paths_for_key c key)" and ?meta = "snd (paths_for_key c key)"
  let ?miss = "remove_and_miss fs ?pcm ?meta"
  have caught: "get lib c now key fs = ?miss"
    if "read_meta lib fs ?meta = Inl e" "is_OSError e \<or> e = KeyError \<or> e = ValueError" for e
    using that ex by (simp add: get_def Let_def)
  have late: "get lib c now key fs = ?miss"
    if "read_meta lib fs ?meta = Inr (created, rate)"
       "is_expired c now (normalized created) \<or> deny_read fs ?pcm" for created rate
  proof -
    obtain content where "files fs ?pcm = Some content"
      using ex(1) by (auto simp: path_exists_def)
    then have "deny_read fs ?pcm \<Longrightarrow> read_file fs ?pcm = Inl PermissionError"
      by (simp add: read_file_def)
    then show ?thesis
      using that ex by (auto simp: get_def Let_def normalized_def is_OSError_def)
  qed
  obtain text0 where text0: "files fs ?meta = Some text0"
    using ex(2) by (auto simp: path_exists_def)
  show ?thesis
  proof (cases "deny_read fs ?meta")
    case True
    then have "read_meta lib fs ?meta = Inl PermissionError"
      using text0 by (simp add: read_meta_def read_file_def)
    then show ?thesis by (rule caught) (simp add: is_OSError_def)
  next
    case readable: False
    then have rd: "read_file fs ?meta = Inr text0"
      using text0 by (simp add: read_file_def)
    from h readable text0 consider
        (nojson) "json_loads lib text0 = None"
      | (nokey) kvs where "json_loads lib text0 = Some (JDict kvs)" "map_of kvs ''created_at'' = None"
      | (noiso) kvs s where "json_loads lib text0 = Some (JDict kvs)"
          "map_of kvs ''created_at'' = Some (JStr s)" "fromisoformat lib s = None"
      | (norate) kvs s created where "json_loads lib text0 = Some (JDict kvs)"
          "map_of kvs ''created_at'' = Some (JStr s)" "fromisoformat lib s = Some created"
          "map_of kvs ''sample_rate'' = None"
      | (badrate) kvs s created v where "json_loads lib text0 = Some (JDict kvs)"
          "map_of kvs ''created_at'' = Some (JStr s)" "fromisoformat lib s = Some created"
          "map_of kvs ''sample_rate'' = Some v" "py_int lib v = Inl ValueError"
      | (parsed) kvs s created v rate where "json_loads lib text0 = Some (JDict kvs)"
          "map_of kvs ''created_at'' = Some (JStr s)" "fromisoformat lib s = Some created"
          "map_of kvs ''sample_rate'' = Some v" "py_int lib v = Inr rate"
          "is_expired c now (normalized created) \<or> deny_read fs ?pcm"
      unfolding handled_failure_def by auto
    then show ?thesis
    proof cases
      case nojson
      then have "read_meta lib fs ?meta = Inl ValueError"
        using rd by (simp add: read_meta_def)
      then show ?thesis by (rule caught) simp
    next
      case nokey
      then have "read_meta lib fs ?meta = Inl KeyError"
        using rd by (simp add: read_meta_def subscript_def)
      then show ?thesis by (rule caught) simp
    next
      case noiso
      then have "read_meta lib fs ?meta = Inl ValueError"
        using rd by (simp add: read_meta_def subscript_def py_fromisoformat_def)
      then show ?thesis by (rule caught) simp
    next
      case norate
      then have "read_meta lib fs ?meta = Inl KeyError"
        using rd by (simp add: read_meta_def subscript_def py_fromisoformat_def)
      then show ?thesis by (rule caught) simp
    next
      case badrate
      then have "read_meta lib fs ?meta = Inl ValueError"
        using rd by (simp add: read_meta_def subscript_def py_fromisoformat_def)
      then show ?thesis by (rule caught) simp
    next
      case parsed
      then have "read_meta lib fs ?meta = Inr (created, rate)"
        using rd by (simp add: read_meta_def subscript_def py_fromisoformat_def)
      then show ?thesis using parsed(6) by (rule late)
    qed
  qed
qed


lemma remove_files_first_refused:
  assumes "path_exists fs p" "deny_unlink fs p"
  shows "remove_files fs [p, q] = (Inl PermissionError, fs)"
  using assms by (auto simp: unlink_def path_exists_def split: option.splits)

lemma remove_files_second_refused:
  assumes "path_exists fs p" "path_exists fs q" "p \<noteq> q" "\<not> deny_unlink fs p" "deny_unlink fs q"
  shows "remove_files fs [p, q] = (Inl PermissionError, fs\<lparr>files := (files fs)(p := None)\<rparr>)"
  using assms by (auto simp: unlink_def path_exists_def split: option.splits)

text \<open>
  Claim C6 (as amended). For an entry whose two files exist and one of the handled
  failures of the read path (the metadata file unreadable; its text not JSON; a JSON
  object without \<open>created_at\<close>; a \<open>created_at\<close> string that is not an ISO-8601 date;
  with an ISO-8601 \<open>created_at\<close>: no \<open>sample_rate\<close>, or a \<open>sample_rate\<close> on which
  \<open>int\<close> raises \<open>ValueError\<close>, or a \<open>sample_rate\<close> that converts and an age beyond the
  TTL or an unreadable audio file): if unlinking the two files is not refused, \<open>get\<close>
  returns absent, raises nothing, and neither file exists afterwards; a file already
  missing when \<open>_remove_files\<close> unlinks it (\<open>FileNotFoundError\<close>) is passed over, so that
  removing the entry once more succeeds. If unlinking the audio file is refused, the
  \<open>PermissionError\<close> leaves \<open>get\<close> and nothing is removed; if only unlinking the
  metadata file is refused, the \<open>PermissionError\<close> leaves \<open>get\<close> with the audio file
  removed.
\<close>

theorem get_handled_failure:
  assumes "path_exists fs (fst (paths_for_key c key))" "path_exists fs (snd (paths_for_key c key))"
      and "handled_failure lib c now key fs"
  shows "(\<not> deny_unlink fs (fst (paths_for_key c key)) \<and> \<not> deny_unlink fs (snd (paths_for_key c key)) \<longrightarrow>
            get lib c now key fs = (Inr None, without_entry c key fs)
          \<and> \<not> path_exists (without_entry c key fs) (fst (paths_for_key c key))
          \<and> \<not> path_exists (without_entry c key fs) (snd (paths_for_key c key))
          \<and> remove_files (without_entry c key fs) [fst (paths_for_key c key), snd (paths_for_key c key)] =
              (Inr (), without_entry c key fs))
       \<and> (deny_unlink fs (fst (paths_for_key c key)) \<longrightarrow>
            get lib c now key fs = (Inl PermissionError, fs))
       \<and> (\<not> deny_unlink fs (fst (paths_for_key c key)) \<and> deny_unlink fs (snd (paths_for_key c key)) \<longrightarrow>
            get lib c now key fs =
              (Inl PermissionError, fs\<lparr>files := (files fs)(fst (paths_for_key c key) := None)\<rparr>))"
proof (intro conjI impI)
  have g: "get lib c now key fs = remove_and_miss fs (fst (paths_for_key c key)) (snd (paths_for_key c key))"
    using assms by (rule get_handled)
  {
    assume un: "\<not> deny_unlink fs (fst (paths_for_key c key)) \<and> \<not> deny_unlink fs (snd (paths_for_key c key))"
    show a: "get lib c now key fs = (Inr None, without_entry c key fs)"
      using g remove_and_miss_ok [OF un [THEN conjunct1] un [THEN conjunct2]] by simp
    show b1: "\<not> path_exists (without_entry c key fs) (fst (paths_for_key c key))"
      by (simp add: without_entry_def path_exists_def)
    show b2: "\<not> path_exists (without_entry c key fs) (snd (paths_for_key c key))"
      by (simp add: without_entry_def path_exists_def)
    show "remove_files (without_entry c key fs) [fst (paths_for_key c key), snd (paths_for_key c key)] =
            (Inr (), without_entry c key fs)"
      using b1 b2 by (simp add: unlink_def path_exists_def)
  }
  {
    assume "deny_unlink fs (fst (paths_for_key c key))"
    then have "remove_files fs [fst (paths_for_key c key), snd (paths_for_key c key)] =
                 (Inl PermissionError, fs)"
      using assms(1) by (intro remove_files_first_refused)
    then show "get lib c now key fs = (Inl PermissionError, fs)"
      using g by (simp add: remove_and_miss_def)
  }
  {
    assume "\<not> deny_unlink fs (fst (paths_for_key c key)) \<and> deny_unlink fs (snd (paths_for_key c key))"
    then have "remove_files fs [fst (paths_for_key c key), snd (paths_for_key c key)] =
                 (Inl PermissionError, fs\<lparr>files := (files fs)(fst (paths_for_key c key) := None)\<rparr>)"
      using assms(1,2) paths_distinct by (intro remove_files_second_refused) auto
    then show "get lib c now key fs =
              (Inl PermissionError, fs\<lparr>files := (files fs)(fst (paths_for_key c key) := None)\<rparr>)"
      using g by (simp add: remove_and_miss_def)
  }
qed

lemma example_paths:
  "fst (paths_for_key example_cache ''abc123'') = ''cache/ab/abc123.pcm''"
  "snd (paths_for_key example_cache ''abc123'') = ''cache/ab/abc123.json''"
  by (simp_all add: paths_for_key_def example_cache_def)

lemma garbage_not_json: "json_loads example_lib ''garbage'' = None"
  by (simp add: example_lib_def)

lemma broken_handled:
  assumes "files fs ''cache/ab/abc123.json'' = Some ''garbage''"
  shows "handled_failure example_lib example_cache 0 ''abc123'' fs"
  unfolding handled_failure_def
  by (rule disjI2, rule disjI1, rule exI [of _ "''garbage''"])
     (simp add: assms example_paths garbage_not_json)

theorem get_handled_failure_witness:
  "path_exists broken_fs ''cache/ab/abc123.pcm'' \<and> path_exists broken_fs ''cache/ab/abc123.json''
   \<and> json_loads example_lib ''garbage'' = None
   \<and> get example_lib example_cache 0 ''abc123'' broken_fs =
        (Inr None, without_entry example_cache ''abc123'' broken_fs)
   \<and> \<not> path_exists (without_entry example_cache ''abc123'' broken_fs) ''cache/ab/abc123.pcm''
   \<and> \<not> path_exists (without_entry example_cache ''abc123'' broken_fs) ''cache/ab/abc123.json''
   \<and> deny_unlink locked_fs ''cache/ab/abc123.pcm''
   \<and> fst (get example_lib example_cache 0 ''abc123'' locked_fs) = Inl PermissionError
   \<and> \<not> deny_unlink meta_locked_fs ''cache/ab/abc123.pcm''
   \<and> deny_unlink meta_locked_fs ''cache/ab/abc123.json''
   \<and> fst (get example_lib example_cache 0 ''abc123'' meta_locked_fs) = Inl PermissionError
   \<and> \<not> path_exists (snd (get example_lib example_cache 0 ''abc123'' meta_locked_fs))
          ''cache/ab/abc123.pcm''"
proof -
  have ex: "path_exists broken_fs (fst (paths_for_key example_cache ''abc123''))"
           "path_exists broken_fs (snd (paths_for_key example_cache ''abc123''))"
    by (simp_all add: example_paths path_exists_def broken_fs_def)
  have exl: "path_exists locked_fs (fst (paths_for_key example_cache ''abc123''))"
            "path_exists locked_fs (snd (paths_for_key example_cache ''abc123''))"
    by (simp_all add: example_paths path_exists_def broken_fs_def locked_fs_def)
  have exm: "path_exists meta_locked_fs (fst (paths_for_key example_cache ''abc123''))"
            "path_exists meta_locked_fs (snd (paths_for_key example_cache ''abc123''))"
    by (simp_all add: example_paths path_exists_def broken_fs_def meta_locked_fs_def)
  have h: "handled_failure example_lib example_cache 0 ''abc123'' broken_fs"
    by (rule broken_handled) (simp add: broken_fs_def)
  have hl: "handled_failure example_lib example_cache 0 ''abc123'' locked_fs"
    by (rule broken_handled) (simp add: broken_fs_def locked_fs_def)
  have hm: "handled_failure example_lib example_cache 0 ''abc123'' meta_locked_fs"
    by (rule broken_handled) (simp add: broken_fs_def meta_locked_fs_def)
  have un: "\<not> deny_unlink broken_fs (fst (paths_for_key example_cache ''abc123''))"
           "\<not> deny_unlink broken_fs (snd (paths_for_key example_cache ''abc123''))"
    by (simp_all add: broken_fs_def)
  have dl: "deny_unlink locked_fs (fst (paths_for_key example_cache ''abc123''))"
    by (simp add: locked_fs_def example_paths)
  have dm: "\<not> deny_unlink meta_locked_fs (fst (paths_for_key example_cache ''abc123''))"
           "deny_unlink meta_locked_fs (snd (paths_for_key example_cache ''abc123''))"
    by (simp_all add: meta_locked_fs_def example_paths)
  have a: "get example_lib example_cache 0 ''abc123'' broken_fs =
             (Inr None, without_entry example_cache ''abc123'' broken_fs)
           \<and> \<not> path_exists (without_entry example_cache ''abc123'' broken_fs) ''cache/ab/abc123.pcm''
           \<and> \<not> path_exists (without_entry example_cache ''abc123'' broken_fs) ''cache/ab/abc123.json''"
    using get_handled_failure [OF ex h] un by (simp add: example_paths)
  have b: "fst (get example_lib example_cache 0 ''abc123'' locked_fs) = Inl PermissionError"
    using get_handled_failure [OF exl hl] dl by simp
  have c: "get example_lib example_cache 0 ''abc123'' meta_locked_fs =
             (Inl PermissionError,
              meta_locked_fs\<lparr>files := (files meta_locked_fs)(''cache/ab/abc123.pcm'' := None)\<rparr>)"
    using get_handled_failure [OF exm hm] dm by (simp add: example_paths)
  have c1: "fst (get example_lib example_cache 0 ''abc123'' meta_locked_fs) = Inl PermissionError"
    unfolding c by simp
  have c2: "\<not> path_exists (snd (get example_lib example_cache 0 ''abc123'' meta_locked_fs))
          ''cache/ab/abc123.pcm''"
    unfolding c by (simp add: path_exists_def)
  show ?thesis
    using ex [unfolded example_paths] garbage_not_json a dl [unfolded example_paths] b
          dm [unfolded example_paths] c1 c2
    by (intro conjI) simp_all
qed

text \<open>
  Claim C6 as stated (any file system error during the deletion is swallowed, \<open>get\<close>
  never propagates) fails: with metadata that is not JSON and an audio file whose
  removal is refused, the \<open>PermissionError\<close> of \<open>unlink\<close> leaves \<open>get\<close>.
\<close>

theorem get_propagates_counterexample:
  "path_exists locked_fs ''cache/ab/abc123.pcm'' \<and> path_exists locked_fs ''cache/ab/abc123.json''
   \<and> json_loads example_lib ''garbage'' = None
   \<and> get example_lib example_cache 0 ''abc123'' locked_fs = (Inl PermissionError, locked_fs)"
proof -
  have "read_meta example_lib locked_fs ''cache/ab/abc123.json'' = Inl ValueError"
    using garbage_not_json by (simp add: read_meta_def read_file_def locked_fs_def broken_fs_def)
  moreover have "remove_and_miss locked_fs ''cache/ab/abc123.pcm'' ''cache/ab/abc123.json'' =
                   (Inl PermissionError, locked_fs)"
    by (simp add: remove_and_miss_def unlink_def locked_fs_def broken_fs_def)
  ultimately show ?thesis
    using garbage_not_json
    by (simp add: get_def Let_def example_paths path_exists_def)
       (simp add: locked_fs_def broken_fs_def)
qed


text \<open>
  Outside the amended claim: metadata that is JSON but not an object (here a list)
  makes \<open>data["created_at"]\<close> raise \<open>TypeError\<close>, and a \<open>sample_rate\<close> on which \<open>int\<close>
  raises \<open>TypeError\<close> (null, a list, an object) or \<open>OverflowError\<close> (an infinite
  number) makes \<open>int\<close> raise; the \<open>except\<close> clause of \<open>get\<close> names neither error, so
  \<open>get\<close> raises it and removes nothing, whatever the age of the entry.
\<close>

lemma get_type_error:
  assumes "path_exists fs (fst (paths_for_key c key))"
      and "files fs (snd (paths_for_key c key)) = Some text"
      and "\<not> deny_read fs (snd (paths_for_key c key))"
      and "json_loads lib text = Some (JList xs)"
  shows "get lib c now key fs = (Inl TypeError, fs)"
proof -
  have "read_meta lib fs (snd (paths_for_key c key)) = Inl TypeError"
    using assms(2-4) by (simp add: read_meta_def read_file_def subscript_def)
  then show ?thesis
    using assms(1,2) by (simp add: get_def Let_def path_exists_def is_OSError_def)
qed

lemma get_uncaught_sample_rate:
  assumes "path_exists fs (fst (paths_for_key c key))"
      and "files fs (snd (paths_for_key c key)) = Some text"
      and "\<not> deny_read fs (snd (paths_for_key c key))"
      and "json_loads lib text = Some (JDict kvs)"
      and "map_of kvs ''created_at'' = Some (JStr s)" "fromisoformat lib s = Some created"
      and "map_of kvs ''sample_rate'' = Some v" "py_int lib v = Inl err"
      and "err = TypeError \<or> err = OverflowError"
  shows "get lib c now key fs = (Inl err, fs)"
proof -
  have "read_meta lib fs (snd (paths_for_key c key)) = Inl err"
    using assms(2-8) by (simp add: read_meta_def read_file_def subscript_def py_fromisoformat_def)
  then show ?thesis
    using assms(1,2,9) by (auto simp: get_def Let_def path_exists_def is_OSError_def)
qed

section \<open>Properties of the streaming controller\<close>

declare attempt_loop.simps [simp del]

lemma record_metric_raises: "record_metric depth st metric underrun = Inl RecursionError"
  by (induction depth) simp_all

lemma try_chunk_raises: "\<exists>err. fst (try_chunk e st w index chunk rate ps prev) = Inl err"
  by (simp add: try_chunk_def record_metric_raises split: prod.splits sum.splits)

lemma attempt_loop_raises:
  "\<exists>err. fst (attempt_loop e index chunk rate ps prev attempts st w) = Inl err"
proof (induction e index chunk rate ps prev attempts st w rule: attempt_loop.induct)
  case (1 e index chunk rate ps prev attempts st w)
  obtain res st' w' where t: "try_chunk e st w index chunk rate ps prev = (res, st', w')"
    by (cases "try_chunk e st w index chunk rate ps prev") auto
  then obtain err where err: "res = Inl err"
    using try_chunk_raises [of e st w index chunk rate ps prev] by auto
  show ?case
  proof (cases "err \<noteq> ProviderAuthError \<and> err \<noteq> ProviderConnectionError \<and> is_transient err
                \<and> \<not> int (Suc attempts) > max_retries st'")
    case True
    then have "attempt_loop e index chunk rate ps prev attempts st w =
                 attempt_loop e index chunk rate ps prev (Suc attempts) st'
                   (emit (Sleep (compute_backoff (int (Suc attempts)) (retry_after_of err)
                                   (jitter_at e (jitter_draws w'))))
                      (w'\<lparr>jitter_draws := Suc (jitter_draws w')\<rparr>))"
      using t err by (subst attempt_loop.simps) (simp add: Let_def)
    moreover have "\<exists>err'. fst (attempt_loop e index chunk rate ps prev (Suc attempts) st'
                   (emit (Sleep (compute_backoff (int (Suc attempts)) (retry_after_of err)
                                   (jitter_at e (jitter_draws w'))))
                      (w'\<lparr>jitter_draws := Suc (jitter_draws w')\<rparr>))) = Inl err'"
      using True t err by (intro "1.IH" [OF t [symmetric, unfolded err]]) (auto simp: err)
    ultimately show ?thesis by simp
  next
    case False
    then have "attempt_loop e index chunk rate ps prev attempts st w = (Inl err, st', w')"
      using t err by (subst attempt_loop.simps) (auto simp: Let_def)
    then show ?thesis by simp
  qed
qed

lemma chunk_loop_raises:
  "ics \<noteq> [] \<Longrightarrow> \<exists>err. fst (chunk_loop e rate ps ics prev st w) = Inl err"
proof (cases ics)
  case Nil
  assume "ics \<noteq> []"
  with Nil show ?thesis by simp
next
  case (Cons ic rest)
  obtain res st' w' where a: "attempt_loop e (fst ic) (snd ic) rate ps prev 0 st w = (res, st', w')"
    by (cases "attempt_loop e (fst ic) (snd ic) rate ps prev 0 st w") auto
  then obtain err where "res = Inl err"
    using attempt_loop_raises [of e "fst ic" "snd ic" rate ps prev 0 st w] by auto
  then show ?thesis using Cons a by simp
qed

lemma run_unfold_started:
  assumes "chunker e text (case max_chars of None \<Rightarrow> chunk_max_chars st | Some m \<Rightarrow> m) = Inr chunks"
      and "chunks \<noteq> []" "connect_raises e = None" "start_raises e = None"
      and "chunk_loop e rate ps (enumerate 0 chunks) None st (emit (Start rate) (emit Connect w)) = (res, st', w')"
  shows "run e st w text rate max_chars ps =
           (case release e w' of
              (Inl err, w'') \<Rightarrow> (Inl err, st', w'')
            | (Inr u, w'') \<Rightarrow>
                (case res of Inl err \<Rightarrow> (Inl err, st', w'') | Inr u' \<Rightarrow> (Inr (metrics st'), st', w'')))"
  using assms by (simp add: run_def Let_def)

lemma run_raises:
  assumes "chunker e text (case max_chars of None \<Rightarrow> chunk_max_chars st | Some m \<Rightarrow> m) = Inr chunks"
      and "chunks \<noteq> []"
  shows "\<exists>err. fst (run e st w text rate max_chars ps) = Inl err"
proof (cases "connect_raises e = None \<and> start_raises e = None")
  case False
  then show ?thesis using assms by (auto simp: run_def Let_def split: option.splits)
next
  case True
  obtain res st' w' where
    l: "chunk_loop e rate ps (enumerate 0 chunks) None st (emit (Start rate) (emit Connect w)) = (res, st', w')"
    by (cases "chunk_loop e rate ps (enumerate 0 chunks) None st (emit (Start rate) (emit Connect w))") auto
  have "enumerate 0 chunks \<noteq> []" using assms(2) by (cases chunks) auto
  then obtain err where "res = Inl err"
    using chunk_loop_raises [of "enumerate 0 chunks" e rate ps None st "emit (Start rate) (emit Connect w)"] l
    by auto
  then show ?thesis
    using run_unfold_started [OF assms True [THEN conjunct1] True [THEN conjunct2] l]
    by (auto split: prod.splits sum.splits)
qed

text \<open>
  Claim C1 on the code: every call of \<open>_record_metric\<close> ends in \<open>RecursionError\<close>,
  whatever the number of nested calls the interpreter allows, so no metric is ever
  recorded; and for a text whose chunking gives at least one chunk, \<open>run\<close> raises
  instead of returning the metrics, whatever the collaborators do.
\<close>

theorem record_metric_never_returns:
  "record_metric depth st metric underrun = Inl RecursionError
   \<and> (chunker e input (case max_chars of None \<Rightarrow> chunk_max_chars ctl | Some m \<Rightarrow> m) = Inr chunks
        \<and> chunks \<noteq> [] \<longrightarrow> (\<exists>err. fst (run e ctl w input rate max_chars ps) = Inl err))"
  using record_metric_raises run_raises by blast

lemma chunk_retry_me: "chunk_text ''Retry me'' 200 = Inr [''Retry me'']"
  by code_simp

theorem record_metric_never_returns_witness:
  "chunker example_env ''Retry me'' (case None of None \<Rightarrow> chunk_max_chars new_controller | Some m \<Rightarrow> m)
     = Inr [''Retry me'']
   \<and> [''Retry me''] \<noteq> []
   \<and> record_metric 1000 new_controller
        \<lparr>chunk_index = 0, char_len = 8, request_start = 0, first_frame = 1 / 20,
         playback_start = 1 / 20, chunk_complete = 1 / 10\<rparr> False = Inl RecursionError
   \<and> (\<exists>err. fst (run example_env new_controller new_world ''Retry me'' 16000 None no_settings) = Inl err)"
proof -
  have c: "chunker example_env ''Retry me''
             (case None of None \<Rightarrow> chunk_max_chars new_controller | Some m \<Rightarrow> m) = Inr [''Retry me'']"
    using chunk_retry_me by (simp add: example_env_def new_controller_def)
  show ?thesis
    using record_metric_never_returns [where depth = 1000 and st = new_controller
            and metric = "\<lparr>chunk_index = 0, char_len = 8, request_start = 0, first_frame = 1 / 20,
                           playback_start = 1 / 20, chunk_complete = 1 / 10\<rparr>"
            and underrun = False and e = example_env and input = "''Retry me''"
            and max_chars = None and ctl = new_controller and chunks = "[''Retry me'']"
            and w = new_world and rate = 16000 and ps = no_settings] c
    by simp
qed

lemma strip_all_space: "list_all isspace s \<Longrightarrow> strip s = []"
proof -
  assume "list_all isspace s"
  then have d: "dropWhile isspace s = []" by (induction s) auto
  show ?thesis unfolding strip_def d by simp
qed

lemma chunk_text_blank:
  assumes "0 < m" "list_all isspace s"
  shows "chunk_text s m = Inr []"
  using assms by (simp add: chunk_text_def normalize_whitespace_def strip_all_space)

text \<open>
  Claim C10 (as amended). When the chunker returns an empty sequence, \<open>run\<close> returns
  the controller's metrics list as it is, and neither the controller nor the world
  changes: no call reaches the provider, the playback sink or the cache. With
  \<open>chunk_text\<close> as the chunker this is the case for every empty or all-whitespace text
  under a positive chunk limit. Under a chunk limit that is not positive \<open>chunk_text\<close>
  raises \<open>ValueError\<close> for every text, and \<open>run\<close> raises it instead of returning,
  again with the controller and the world unchanged.
\<close>

theorem run_no_chunks:
  "(chunker e input (case max_chars of None \<Rightarrow> chunk_max_chars st | Some m \<Rightarrow> m) = Inr [] \<longrightarrow>
      run e st w input rate max_chars ps = (Inr (metrics st), st, w))
   \<and> (chunker e = chunk_text \<and> list_all isspace input
        \<and> 0 < (case max_chars of None \<Rightarrow> chunk_max_chars st | Some m \<Rightarrow> m) \<longrightarrow>
      run e st w input rate max_chars ps = (Inr (metrics st), st, w))
   \<and> (chunker e = chunk_text
        \<and> (case max_chars of None \<Rightarrow> chunk_max_chars st | Some m \<Rightarrow> m) \<le> 0 \<longrightarrow>
      run e st w input rate max_chars ps = (Inl ValueError, st, w))"
proof (intro conjI impI)
  assume "chunker e input (case max_chars of None \<Rightarrow> chunk_max_chars st | Some m \<Rightarrow> m) = Inr []"
  then show "run e st w input rate max_chars ps = (Inr (metrics st), st, w)"
    by (simp add: run_def Let_def)
next
  assume a: "chunker e = chunk_text \<and> list_all isspace input
             \<and> 0 < (case max_chars of None \<Rightarrow> chunk_max_chars st | Some m \<Rightarrow> m)"
  then have "chunker e input (case max_chars of None \<Rightarrow> chunk_max_chars st | Some m \<Rightarrow> m) = Inr []"
    using chunk_text_blank by simp
  then show "run e st w input rate max_chars ps = (Inr (metrics st), st, w)"
    by (simp add: run_def Let_def)
next
  assume a: "chunker e = chunk_text
             \<and> (case max_chars of None \<Rightarrow> chunk_max_chars st | Some m \<Rightarrow> m) \<le> 0"
  then have "chunker e input (case max_chars of None \<Rightarrow> chunk_max_chars st | Some m \<Rightarrow> m) = Inl ValueError"
    by (simp add: chunk_text_def)
  then show "run e st w input rate max_chars ps = (Inl ValueError, st, w)"
    by (simp add: run_def Let_def)
qed

theorem run_no_chunks_witness:
  "chunker example_env = chunk_text \<and> list_all isspace [CHR '' '', CHR 0x0A, CHR 0x09]
   \<and> 0 < (case None of None \<Rightarrow> chunk_max_chars new_controller | Some m \<Rightarrow> m)
   \<and> chunker example_env [CHR '' '', CHR 0x0A, CHR 0x09]
        (case None of None \<Rightarrow> chunk_max_chars new_controller | Some m \<Rightarrow> m) = Inr []
   \<and> run example_env new_controller new_world [CHR '' '', CHR 0x0A, CHR 0x09] 16000 None no_settings =
        (Inr (metrics new_controller), new_controller, new_world)
   \<and> (case Some (- 5) of None \<Rightarrow> chunk_max_chars new_controller | Some m \<Rightarrow> m) \<le> (0::int)
   \<and> run example_env new_controller new_world ''Hello.'' 16000 (Some (- 5)) no_settings =
        (Inl ValueError, new_controller, new_world)"
proof -
  have c: "chunker example_env = chunk_text" by (simp add: example_env_def)
  have s: "list_all isspace [CHR '' '', CHR 0x0A, CHR 0x09]" by (simp add: isspace_def)
  have m: "0 < (case None of None \<Rightarrow> chunk_max_chars new_controller | Some m \<Rightarrow> m)"
    by (simp add: new_controller_def)
  have n: "chunker example_env [CHR '' '', CHR 0x0A, CHR 0x09]
        (case None of None \<Rightarrow> chunk_max_chars new_controller | Some m \<Rightarrow> m) = Inr []"
    using chunk_text_blank [OF _ s, of 200] by (simp add: c new_controller_def)
  show ?thesis
    using run_no_chunks [where e = example_env and input = "[CHR '' '', CHR 0x0A, CHR 0x09]"
            and max_chars = None and st = new_controller and w = new_world and rate = 16000
            and ps = no_settings]
          run_no_chunks [where e = example_env and input = "''Hello.''"
            and max_chars = "Some (- 5)" and st = new_controller and w = new_world and rate = 16000
            and ps = no_settings]
          c s m n
    by simp
qed

text \<open>
  Claim C10 as stated (for every empty text \<open>run\<close> returns the metrics list) fails for
  a chunk limit that is not positive: \<open>run("", max_chars=0)\<close> raises the \<open>ValueError\<close> of
  \<open>chunk_text\<close>.
\<close>

theorem run_empty_text_counterexample:
  "run example_env new_controller new_world [] 16000 (Some 0) no_settings =
     (Inl ValueError, new_controller, new_world)"
  by (simp add: run_def Let_def example_env_def chunk_text_def)

lemma release_trace:
  "trace (snd (release e w)) =
     trace w @ (if flush_raises e = None then [FlushAndClose, ProviderClose] else [FlushAndClose])"
  by (simp add: release_def emit_def split: option.splits)

lemma chunker_retry_me:
  "chunker example_env ''Retry me''
     (case None of None \<Rightarrow> chunk_max_chars new_controller | Some m \<Rightarrow> m) = Inr [''Retry me'']"
  using chunk_retry_me by (simp add: example_env_def new_controller_def)

text \<open>
  Claim C5 on the code. Once \<open>provider.connect\<close> and \<open>playback.start\<close> have both
  succeeded, and \<open>flush_and_close\<close> raises nothing, the last calls \<open>run\<close> makes on
  every way out (the chunk loop finishing, a fatal provider error, retries exhausted,
  any other exception) are \<open>flush_and_close\<close> and then the provider's \<open>close\<close>. But
  when \<open>playback.start\<close> raises, \<open>run\<close> propagates the error having called
  \<open>connect\<close> and \<open>start\<close> and nothing else: the release calls the claim asks for on
  this path are not made, and the provider stays connected.
\<close>

theorem run_start_failure_leaks:
  assumes "chunker e input (case max_chars of None \<Rightarrow> chunk_max_chars st | Some m \<Rightarrow> m) = Inr chunks"
      and "chunks \<noteq> []"
  shows "(connect_raises e = None \<and> start_raises e = None \<and> flush_raises e = None \<longrightarrow>
            (\<exists>before. trace (snd (snd (run e st w input rate max_chars ps))) =
               before @ [FlushAndClose, ProviderClose]))
       \<and> (connect_raises e = None \<and> start_raises e = Some err \<longrightarrow>
            run e st w input rate max_chars ps = (Inl err, st, emit (Start rate) (emit Connect w))
          \<and> trace (snd (snd (run e st w input rate max_chars ps))) = trace w @ [Connect, Start rate])"
proof (intro conjI impI)
  assume ok: "connect_raises e = None \<and> start_raises e = None \<and> flush_raises e = None"
  obtain res st' w' where
    l: "chunk_loop e rate ps (enumerate 0 chunks) None st (emit (Start rate) (emit Connect w)) = (res, st', w')"
    by (cases "chunk_loop e rate ps (enumerate 0 chunks) None st (emit (Start rate) (emit Connect w))") auto
  have c: "connect_raises e = None" and s: "start_raises e = None" using ok by simp_all
  have "snd (snd (run e st w input rate max_chars ps)) = snd (release e w')"
    using run_unfold_started [OF assms c s l]
    by (auto split: prod.splits sum.splits)
  then have "trace (snd (snd (run e st w input rate max_chars ps))) =
               trace w' @ [FlushAndClose, ProviderClose]"
    using ok by (simp add: release_trace)
  then show "\<exists>before. trace (snd (snd (run e st w input rate max_chars ps))) =
               before @ [FlushAndClose, ProviderClose]"
    by blast
next
  assume a: "connect_raises e = None \<and> start_raises e = Some err"
  then show "run e st w input rate max_chars ps = (Inl err, st, emit (Start rate) (emit Connect w))"
    using assms by (simp add: run_def Let_def)
  then show "trace (snd (snd (run e st w input rate max_chars ps))) = trace w @ [Connect, Start rate]"
    by (simp add: emit_def)
qed

theorem run_start_failure_leaks_witness:
  "chunker example_env ''Retry me''
     (case None of None \<Rightarrow> chunk_max_chars new_controller | Some m \<Rightarrow> m) = Inr [''Retry me'']
   \<and> [''Retry me''] \<noteq> []
   \<and> connect_raises example_env = None \<and> start_raises example_env = None
   \<and> flush_raises example_env = None
   \<and> (\<exists>before. trace (snd (snd (run example_env new_controller new_world ''Retry me'' 16000 None
                                      no_settings))) = before @ [FlushAndClose, ProviderClose])
   \<and> chunker no_device_env ''Retry me''
       (case None of None \<Rightarrow> chunk_max_chars new_controller | Some m \<Rightarrow> m) = Inr [''Retry me'']
   \<and> connect_raises no_device_env = None \<and> start_raises no_device_env = Some AudioDeviceError
   \<and> fst (run no_device_env new_controller new_world ''Retry me'' 16000 None no_settings) =
       Inl AudioDeviceError
   \<and> trace (snd (snd (run no_device_env new_controller new_world ''Retry me'' 16000 None no_settings))) =
       [Connect, Start 16000]"
proof -
  have ne: "[''Retry me''] \<noteq> []" by simp
  have ok: "connect_raises example_env = None" "start_raises example_env = None"
           "flush_raises example_env = None"
    by (simp_all add: example_env_def)
  have c: "chunker no_device_env ''Retry me''
     (case None of None \<Rightarrow> chunk_max_chars new_controller | Some m \<Rightarrow> m) = Inr [''Retry me'']"
    using chunk_retry_me by (simp add: no_device_env_def example_env_def new_controller_def)
  have s: "connect_raises no_device_env = None" "start_raises no_device_env = Some AudioDeviceError"
    by (simp_all add: no_device_env_def example_env_def)
  have t: "trace new_world = []" by (simp add: new_world_def)
  have good: "\<exists>before. trace (snd (snd (run example_env new_controller new_world ''Retry me'' 16000 None
                                      no_settings))) = before @ [FlushAndClose, ProviderClose]"
    using run_start_failure_leaks [OF chunker_retry_me ne, where w = new_world and rate = 16000
                          and ps = no_settings and err = AudioDeviceError] ok
    by blast
  have bad: "run no_device_env new_controller new_world ''Retry me'' 16000 None no_settings =
               (Inl AudioDeviceError, new_controller, emit (Start 16000) (emit Connect new_world))
             \<and> trace (snd (snd (run no_device_env new_controller new_world ''Retry me'' 16000 None
                                      no_settings))) = trace new_world @ [Connect, Start 16000]"
    using run_start_failure_leaks [OF c ne, where w = new_world and rate = 16000
                          and ps = no_settings and err = AudioDeviceError] s
    by blast
  have bad1: "fst (run no_device_env new_controller new_world ''Retry me'' 16000 None no_settings) =
                Inl AudioDeviceError"
    using bad [THEN conjunct1] by simp
  have bad2: "trace (snd (snd (run no_device_env new_controller new_world ''Retry me'' 16000 None
                                 no_settings))) = [Connect, Start 16000]"
    using bad [THEN conjunct2] t by simp
  show ?thesis
    using chunker_retry_me ne ok good c s bad1 bad2 by (intro conjI)
qed

lemma clock_trace: "trace (snd (clock e w)) = trace w"
  by (simp add: clock_def)

lemma submit_trace: "\<exists>more. trace (snd (submit e frame w)) = trace w @ more"
  by (simp add: submit_def emit_def split: option.splits)

lemma submit_all_trace: "\<exists>more. trace (snd (submit_all e frames w)) = trace w @ more"
proof (induction frames arbitrary: w)
  case Nil
  show ?case by simp
next
  case (Cons frame frames)
  obtain r w1 where s: "submit e frame w = (r, w1)" by (cases "submit e frame w") auto
  then obtain m1 where m1: "trace w1 = trace w @ m1"
    using submit_trace [of e frame w] by auto
  show ?case
  proof (cases r)
    case (Inl err)
    then show ?thesis using s m1 by simp
  next
    case (Inr u)
    obtain m2 where "trace (snd (submit_all e frames w1)) = trace w1 @ m2"
      using Cons.IH by blast
    then show ?thesis using s Inr m1 by simp
  qed
qed

lemma stream_loop_trace: "\<exists>more. trace (snd (stream_loop e its acc w)) = trace w @ more"
proof (induction its arbitrary: acc w)
  case Nil
  show ?case by simp
next
  case (Cons item rest)
  show ?case
  proof (cases item)
    case NotAFrame
    then show ?thesis by simp
  next
    case (Frame frame)
    obtain now w1 where c: "clock e w = (now, w1)" by (cases "clock e w") auto
    then have t1: "trace w1 = trace w" using clock_trace [of e w] by simp
    obtain r w2 where s: "submit e frame w1 = (r, w2)" by (cases "submit e frame w1") auto
    then obtain m1 where m1: "trace w2 = trace w @ m1"
      using submit_trace [of e frame w1] t1 by auto
    show ?thesis
    proof (cases r)
      case (Inl err)
      then show ?thesis using Frame c s m1 by (simp add: Let_def)
    next
      case (Inr u)
      obtain m2 where "trace (snd (stream_loop e rest
          (if fst acc = None then Some now else fst acc,
           if fst (snd acc) = None then Some now else fst (snd acc),
           snd (snd acc) @ frame_pcm frame) w2)) = trace w2 @ m2"
        using Cons.IH by blast
      then show ?thesis using Frame c s Inr m1 by (simp add: Let_def)
    qed
  qed
qed

lemma replay_cached_trace:
  "\<exists>more. trace (snd (replay_cached e st w index chunk rate cached)) = trace w @ more"
proof -
  obtain t w1 where c: "clock e w = (t, w1)" by (cases "clock e w") auto
  then have t1: "trace w1 = trace w" using clock_trace [of e w] by simp
  obtain r w2 where p: "play_cached_item e cached rate w1 = (r, w2)"
    by (cases "play_cached_item e cached rate w1") auto
  then obtain m1 where m1: "trace w2 = trace w @ m1"
    using submit_all_trace t1 unfolding play_cached_item_def Let_def by (metis snd_conv)
  obtain t' w3 where c': "clock e w2 = (t', w3)" by (cases "clock e w2") auto
  then have "trace w3 = trace w2" using clock_trace [of e w2] by simp
  then show ?thesis using c p c' m1
    by (cases r) (simp_all add: replay_cached_def)
qed

lemma synthesize_trace:
  "\<exists>more. trace (snd (synthesize e st w index chunk rate cache_key)) = trace w @ more"
proof -
  obtain t w1 where c: "clock e w = (t, w1)" by (cases "clock e w") auto
  then have t1: "trace w1 = trace w" using clock_trace [of e w] by simp
  let ?w2 = "emit (StreamCall chunk) (w1\<lparr>stream_calls := Suc (stream_calls w1)\<rparr>)"
  let ?out = "stream_at e (stream_calls w1) chunk"
  have t2: "trace ?w2 = trace w @ [StreamCall chunk]" using t1 by (simp add: emit_def)
  obtain r w3 where l: "stream_loop e (items ?out) (None, None, []) ?w2 = (r, w3)"
    by (cases "stream_loop e (items ?out) (None, None, []) ?w2") auto
  then obtain m3 where m3: "trace w3 = trace w @ m3"
    using stream_loop_trace [of e "items ?out" "(None, None, [])" ?w2] t2 by auto
  obtain t' w4 where c': "clock e w3 = (t', w4)" by (cases "clock e w3") auto
  then have t4: "trace w4 = trace w3" using clock_trace [of e w3] by simp
  show ?thesis
    using c l c' m3 t4
    by (auto simp: synthesize_def Let_def emit_def split: sum.splits option.splits prod.splits)
qed

lemma process_chunk_starts_with_get:
  assumes "compute_cache_key (library e) st chunk ps = Some key" "key \<noteq> []" "cache st = Some c"
  shows "\<exists>more. trace (snd (process_chunk e st w index chunk rate ps prev)) =
           trace w @ CacheGet key # more"
proof -
  obtain res disk' where g: "get (library e) c (wall_at e (cache_ops w)) key (disk w) = (res, disk')"
    by (cases "get (library e) c (wall_at e (cache_ops w)) key (disk w)") auto
  let ?w1 = "emit (CacheGet key) (w\<lparr>disk := disk', cache_ops := Suc (cache_ops w)\<rparr>)"
  have t1: "trace ?w1 = trace w @ [CacheGet key]" by (simp add: emit_def)
  show ?thesis
  proof (cases res)
    case (Inl err)
    then show ?thesis using assms g t1 by (simp add: process_chunk_def Let_def)
  next
    case (Inr found)
    show ?thesis
    proof (cases found)
      case None
      obtain m where "trace (snd (synthesize e st ?w1 index chunk rate (Some key))) = trace ?w1 @ m"
        using synthesize_trace by blast
      then show ?thesis using assms g Inr None t1 by (simp add: process_chunk_def Let_def)
    next
      case (Some cached)
      obtain m where "trace (snd (replay_cached e st ?w1 index chunk rate cached)) = trace ?w1 @ m"
        using replay_cached_trace by blast
      then show ?thesis using assms g Inr Some t1 by (simp add: process_chunk_def Let_def)
    qed
  qed
qed

lemma cached_key:
  "compute_cache_key (library flaky_env) cached_controller ''Retry me'' no_settings = Some ''00Retry me''"
  by (simp add: compute_cache_key_def cached_controller_def new_controller_def flaky_env_def
        example_env_def update_settings_def no_settings_def or_option_def make_cache_key_def
        example_lib_def Let_def)

lemma example_paths_retry:
  "fst (paths_for_key example_cache ''00Retry me'') = ''cache/00/00Retry me.pcm''"
  "snd (paths_for_key example_cache ''00Retry me'') = ''cache/00/00Retry me.json''"
  by (simp_all add: paths_for_key_def example_cache_def)

lemma get_empty: "get l example_cache t ''00Retry me'' empty_fs = (Inr None, empty_fs)"
  by (simp add: get_def Let_def example_paths_retry path_exists_def empty_fs_def)

lemma flaky_first_attempt:
  "fst (process_chunk flaky_env cached_controller new_world 0 ''Retry me'' 16000 no_settings None) =
     Inl (ProviderRateLimitError (Some (1 / 20)))"
proof -
  have c: "cache cached_controller = Some example_cache"
    by (simp add: cached_controller_def new_controller_def)
  have d: "disk new_world = empty_fs" by (simp add: new_world_def)
  have s: "stream_at flaky_env 0 chunk =
             \<lparr>items = [], failure = Some (ProviderRateLimitError (Some (1 / 20)))\<rparr>" for chunk
    by (simp add: flaky_env_def example_env_def)
  have n: "stream_calls new_world = 0" by (simp add: new_world_def)
  show ?thesis
    by (simp add: process_chunk_def Let_def cached_key c d get_empty synthesize_def clock_def s n
          emit_def)
qed

lemma try_chunk_world:
  "snd (snd (try_chunk e st w index chunk rate ps prev)) =
     snd (process_chunk e st w index chunk rate ps prev)"
  by (simp add: try_chunk_def split: prod.splits sum.splits)

lemma try_chunk_error_state:
  "fst (process_chunk e st w index chunk rate ps prev) = Inl err \<Longrightarrow>
   try_chunk e st w index chunk rate ps prev =
     (Inl err, st, snd (process_chunk e st w index chunk rate ps prev))"
  by (cases "process_chunk e st w index chunk rate ps prev") (simp add: try_chunk_def)

lemma transient_not_fatal:
  "is_transient err \<Longrightarrow> err \<noteq> ProviderAuthError \<and> err \<noteq> ProviderConnectionError"
  by (auto simp: is_transient_def)

text \<open>
  Claim C2 (as amended). When an attempt at a chunk raises a transient error and the
  retry bound is not yet exceeded, the loop sleeps for the computed backoff delay and
  then attempts the same chunk again from the start of \<open>_process_chunk\<close>: with a cache
  and a cache key for the chunk, the first call of the retried attempt is again
  \<open>PhraseCache.get\<close> for that key.
\<close>

theorem retry_repeats_lookup:
  assumes "try_chunk e st w index chunk rate ps prev = (Inl err, st', w')"
      and "is_transient err" "int (Suc attempts) \<le> max_retries st'"
      and "compute_cache_key (library e) st' chunk ps = Some key" "key \<noteq> []" "cache st' = Some c"
  shows "\<exists>w'' more.
           attempt_loop e index chunk rate ps prev attempts st w =
             attempt_loop e index chunk rate ps prev (Suc attempts) st' w''
         \<and> trace w'' = trace w' @ [Sleep (compute_backoff (int (Suc attempts)) (retry_after_of err)
                                            (jitter_at e (jitter_draws w')))]
         \<and> snd (snd (try_chunk e st' w'' index chunk rate ps prev)) =
             snd (process_chunk e st' w'' index chunk rate ps prev)
         \<and> trace (snd (process_chunk e st' w'' index chunk rate ps prev)) =
             trace w'' @ CacheGet key # more"
proof -
  let ?delay = "compute_backoff (int (Suc attempts)) (retry_after_of err) (jitter_at e (jitter_draws w'))"
  let ?w = "emit (Sleep ?delay) (w'\<lparr>jitter_draws := Suc (jitter_draws w')\<rparr>)"
  have "attempt_loop e index chunk rate ps prev attempts st w =
          attempt_loop e index chunk rate ps prev (Suc attempts) st' ?w"
    using assms(1-3) transient_not_fatal [OF assms(2)]
    by (subst attempt_loop.simps) (simp add: Let_def)
  moreover have "trace ?w = trace w' @ [Sleep ?delay]" by (simp add: emit_def)
  moreover obtain more where
    "trace (snd (process_chunk e st' ?w index chunk rate ps prev)) = trace ?w @ CacheGet key # more"
    using process_chunk_starts_with_get [OF assms(4-6)] by blast
  ultimately show ?thesis using try_chunk_world by blast
qed

theorem retry_repeats_lookup_witness:
  "try_chunk flaky_env cached_controller new_world 0 ''Retry me'' 16000 no_settings None =
     (Inl (ProviderRateLimitError (Some (1 / 20))), cached_controller,
      snd (process_chunk flaky_env cached_controller new_world 0 ''Retry me'' 16000 no_settings None))
   \<and> is_transient (ProviderRateLimitError (Some (1 / 20)))
   \<and> int (Suc 0) \<le> max_retries cached_controller
   \<and> compute_cache_key (library flaky_env) cached_controller ''Retry me'' no_settings =
       Some ''00Retry me''
   \<and> ''00Retry me'' \<noteq> [] \<and> cache cached_controller = Some example_cache
   \<and> (\<exists>w'' more.
         attempt_loop flaky_env 0 ''Retry me'' 16000 no_settings None 0 cached_controller new_world =
           attempt_loop flaky_env 0 ''Retry me'' 16000 no_settings None (Suc 0) cached_controller w''
       \<and> trace (snd (process_chunk flaky_env cached_controller w'' 0 ''Retry me'' 16000 no_settings None)) =
           trace w'' @ CacheGet ''00Retry me'' # more)"
proof -
  have t: "try_chunk flaky_env cached_controller new_world 0 ''Retry me'' 16000 no_settings None =
     (Inl (ProviderRateLimitError (Some (1 / 20))), cached_controller,
      snd (process_chunk flaky_env cached_controller new_world 0 ''Retry me'' 16000 no_settings None))"
    using flaky_first_attempt by (rule try_chunk_error_state)
  have tr: "is_transient (ProviderRateLimitError (Some (1 / 20)))" by (simp add: is_transient_def)
  have mr: "int (Suc 0) \<le> max_retries cached_controller"
    by (simp add: cached_controller_def new_controller_def)
  have ne: "''00Retry me'' \<noteq> []" by simp
  have c: "cache cached_controller = Some example_cache"
    by (simp add: cached_controller_def new_controller_def)
  show ?thesis
    using retry_repeats_lookup [OF t tr mr cached_key ne c] t tr mr cached_key c by blast
qed

text \<open>
  Claim C2 as stated (no further \<open>PhraseCache.get\<close> on the retry) fails: with a cache,
  and a provider whose first \<open>stream\<close> raises a rate-limit error, the calls of \<open>run\<close>
  on one chunk are a lookup, the failed stream, the sleep, and then a second lookup for
  the same key before the second stream.
\<close>

theorem retry_lookup_counterexample:
  "trace (snd (snd (run flaky_env cached_controller new_world ''Retry me'' 16000 None no_settings))) =
     [Connect, Start 16000, CacheGet ''00Retry me'', StreamCall ''Retry me'', Sleep (31 / 100),
      CacheGet ''00Retry me'', StreamCall ''Retry me'',
      Submit \<lparr>frame_pcm = ''ab'', frame_rate = 16000\<rparr>, CachePut ''00Retry me'',
      FlushAndClose, ProviderClose]"
  by code_simp

section \<open>Properties of the adaptive step\<close>

lemma percentile_five:
  assumes "length vals = 5"
  shows "percentile vals (95 / 100) = Inr (p95_of_five vals)"
proof -
  have ne: "vals \<noteq> []" using assms by auto
  have len: "length (sort vals) = 5" using assms by simp
  have fl: "\<lfloor>(19::rat) / 5\<rfloor> = 3" by (rule floor_unique) simp_all
  have ce: "\<lceil>(19::rat) / 5\<rceil> = 4" by (rule ceiling_unique) simp_all
  have rank: "(95::rat) / 100 * (of_nat (length (sort vals)) - 1) = 19 / 5"
    using len by simp
  have lo: "py_index (sort vals) 3 = Inr (sort vals ! 3)"
    using len by (simp add: py_index_def Let_def)
  have hi: "py_index (sort vals) 4 = Inr (sort vals ! 4)"
    using len by (simp add: py_index_def Let_def)
  show ?thesis
    unfolding percentile_def Let_def rank fl ce
    using ne lo hi by (simp add: p95_of_five_def)
qed

lemma summarise_five:
  assumes "length ms = 5"
  shows "\<exists>summ. summarise_metrics ms = Inr summ
           \<and> p95_first_frame_ms summ = p95_of_five (map synthesis_latency_ms ms)"
proof -
  have ne: "ms \<noteq> []" using assms by auto
  have a: "percentile (map synthesis_latency_ms ms) (95 / 100) = Inr (p95_of_five (map synthesis_latency_ms ms))"
    using assms by (intro percentile_five) simp
  have b: "percentile (map startup_latency_ms ms) (95 / 100) = Inr (p95_of_five (map startup_latency_ms ms))"
    using assms by (intro percentile_five) simp
  have "summarise_metrics ms =
          Inr \<lparr>p95_first_frame_ms = p95_of_five (map synthesis_latency_ms ms),
               p95_startup_ms = p95_of_five (map startup_latency_ms ms),
               avg_inter_chunk_gap_ms =
                 (if gaps ms = [] then 0 else sum_list (gaps ms) / of_nat (length (gaps ms)))\<rparr>"
    unfolding summarise_metrics_def a b using ne by simp
  then show ?thesis by simp
qed

lemma length_last_five: "5 \<le> length xs \<Longrightarrow> length (last_five xs) = 5"
  by (simp add: last_five_def)

lemma py_trunc_four_fifths:
  assumes "0 \<le> c"
  shows "py_trunc (of_int c * (8 / 10)) = c * 4 div 5"
proof -
  have "(of_int c :: rat) * (8 / 10) = of_int (c * 4) / of_int 5" by simp
  moreover have "\<lfloor>(of_int (c * 4) :: rat) / of_int 5\<rfloor> = c * 4 div 5"
    by (rule floor_divide_of_int_eq)
  moreover have "0 \<le> (of_int c :: rat) * (8 / 10)" using assms by simp
  ultimately show ?thesis by (simp only: py_trunc_def if_True)
qed

lemma apply_adaptive_logic_closed:
  "apply_adaptive_logic st =
     Inr (st\<lparr>prebuffer_ms :=
               (if 2 < count_list (recent_underruns st) True \<and> prebuffer_ms st < 200
                then min 200 (prebuffer_ms st + 20) else prebuffer_ms st),
             chunk_max_chars :=
               (if 5 \<le> length (recent_metrics st)
                   \<and> 600 < p95_of_five (map synthesis_latency_ms (last_five (recent_metrics st)))
                   \<and> 80 < chunk_max_chars st
                then max 80 (chunk_max_chars st * 4 div 5) else chunk_max_chars st)\<rparr>)"
proof -
  define st1 where "st1 = st\<lparr>prebuffer_ms :=
              (if 2 < count_list (recent_underruns st) True \<and> prebuffer_ms st < 200
               then min 200 (prebuffer_ms st + 20) else prebuffer_ms st)\<rparr>"
  have pre: "(if 2 < count_list (recent_underruns st) True \<and> prebuffer_ms st < 200 then
        (if min 200 (prebuffer_ms st + 20) \<noteq> prebuffer_ms st
         then st\<lparr>prebuffer_ms := min 200 (prebuffer_ms st + 20)\<rparr> else st)
      else st) = st1"
  proof (cases "2 < count_list (recent_underruns st) True \<and> prebuffer_ms st < 200")
    case True
    then have "min 200 (prebuffer_ms st + 20) \<noteq> prebuffer_ms st" by (simp add: min_def)
    then show ?thesis using True by (simp add: st1_def Let_def)
  next
    case False
    have a: "st1 = st\<lparr>prebuffer_ms := prebuffer_ms st\<rparr>"
      unfolding st1_def by (simp only: if_not_P [OF False])
    have "st1 = st" unfolding a by simp
    then show ?thesis by (simp only: if_not_P [OF False])
  qed
  have f1: "recent_metrics st1 = recent_metrics st" "chunk_max_chars st1 = chunk_max_chars st"
    by (simp_all add: st1_def)
  have unchanged: "st1\<lparr>chunk_max_chars := chunk_max_chars st\<rparr> = st1"
    using f1 by simp
  show ?thesis
  proof (cases "5 \<le> length (recent_metrics st)")
    case False
    then have "apply_adaptive_logic st = Inr st1"
      unfolding apply_adaptive_logic_def Let_def unfolding pre by (simp add: f1)
    then show ?thesis using False unchanged by (simp add: st1_def)
  next
    case True
    let ?recent = "last_five (recent_metrics st)"
    obtain summ where summ: "summarise_metrics ?recent = Inr summ"
        "p95_first_frame_ms summ = p95_of_five (map synthesis_latency_ms ?recent)"
      using summarise_five [OF length_last_five [OF True]] by blast
    define nc where "nc = max 80 (py_trunc (of_int (chunk_max_chars st) * (8 / 10)))"
    have body: "apply_adaptive_logic st =
            (if 600 < p95_first_frame_ms summ then
               (if nc < chunk_max_chars st then Inr (st1\<lparr>chunk_max_chars := nc\<rparr>) else Inr st1)
             else Inr st1)"
      unfolding apply_adaptive_logic_def Let_def nc_def unfolding pre
      using True summ(1) by (simp add: f1 last_five_def)
    have nc80: "80 \<le> nc" by (simp add: nc_def)
    have nc_big: "nc = max 80 (chunk_max_chars st * 4 div 5)" if "80 < chunk_max_chars st"
    proof -
      have "py_trunc (of_int (chunk_max_chars st) * (8 / 10)) = chunk_max_chars st * 4 div 5"
        using that by (intro py_trunc_four_fifths) simp
      then show ?thesis unfolding nc_def by (rule arg_cong)
    qed
    have nc_less: "nc < chunk_max_chars st" if "80 < chunk_max_chars st"
    proof -
      have "chunk_max_chars st * 4 div 5 < chunk_max_chars st" using that by arith
      then show ?thesis using that nc_big [OF that] by simp
    qed
    show ?thesis
    proof (cases "600 < p95_first_frame_ms summ \<and> 80 < chunk_max_chars st")
      case False
      have "\<not> nc < chunk_max_chars st" if "\<not> 80 < chunk_max_chars st"
        using that nc80 by linarith
      then have ap: "apply_adaptive_logic st = Inr st1"
        using False body by (cases "600 < p95_first_frame_ms summ") (simp_all only: if_P if_not_P simp_thms)
      have "\<not> (5 \<le> length (recent_metrics st)
                   \<and> 600 < p95_of_five (map synthesis_latency_ms (last_five (recent_metrics st)))
                   \<and> 80 < chunk_max_chars st)"
        using False summ(2) by simp
      then have rhs: "(if 5 \<le> length (recent_metrics st)
                   \<and> 600 < p95_of_five (map synthesis_latency_ms (last_five (recent_metrics st)))
                   \<and> 80 < chunk_max_chars st
                then max 80 (chunk_max_chars st * 4 div 5) else chunk_max_chars st) = chunk_max_chars st"
        by (rule if_not_P)
      show ?thesis
        unfolding st1_def [symmetric] rhs unchanged by (fact ap)
    next
      case big: True
      then have ap: "apply_adaptive_logic st = Inr (st1\<lparr>chunk_max_chars := nc\<rparr>)"
        using body nc_less by (simp only: if_P simp_thms)
      have "5 \<le> length (recent_metrics st)
                   \<and> 600 < p95_of_five (map synthesis_latency_ms (last_five (recent_metrics st)))
                   \<and> 80 < chunk_max_chars st"
        using big True summ(2) by simp
      then have "(if 5 \<le> length (recent_metrics st)
                   \<and> 600 < p95_of_five (map synthesis_latency_ms (last_five (recent_metrics st)))
                   \<and> 80 < chunk_max_chars st
                then max 80 (chunk_max_chars st * 4 div 5) else chunk_max_chars st) =
                 max 80 (chunk_max_chars st * 4 div 5)"
        by (rule if_P)
      then have rhs: "(if 5 \<le> length (recent_metrics st)
                   \<and> 600 < p95_of_five (map synthesis_latency_ms (last_five (recent_metrics st)))
                   \<and> 80 < chunk_max_chars st
                then max 80 (chunk_max_chars st * 4 div 5) else chunk_max_chars st) = nc"
        using nc_big big by simp
      show ?thesis
        unfolding st1_def [symmetric] rhs by (fact ap)
    qed
  qed
qed

text \<open>
  Claim C4 (as amended). The adaptive step always completes, and: (1) if more than 2 of
  the recorded underrun flags in the window are true and the prebuffer is below 200 ms,
  the prebuffer becomes \<open>min(200, prebuffer + 20)\<close>: it increases, by exactly 20 ms
  when it was at most 180 ms, and does not exceed 200 ms; otherwise it is unchanged;
  (2) if the window holds 5 entries, the 95th percentile of the first-frame synthesis
  latency over the last 5 exceeds 600 ms, and the maximum chunk length is above 80, the
  maximum chunk length becomes \<open>max(80, floor(current * 0.8))\<close>; otherwise it is
  unchanged; it is never increased.
\<close>

theorem adaptive_step:
  "\<exists>st'. apply_adaptive_logic st = Inr st'
     \<and> (2 < count_list (recent_underruns st) True \<and> prebuffer_ms st < 200 \<longrightarrow>
          prebuffer_ms st' = min 200 (prebuffer_ms st + 20)
          \<and> prebuffer_ms st < prebuffer_ms st' \<and> prebuffer_ms st' \<le> 200)
     \<and> (2 < count_list (recent_underruns st) True \<and> prebuffer_ms st \<le> 180 \<longrightarrow>
          prebuffer_ms st' = prebuffer_ms st + 20)
     \<and> (\<not> (2 < count_list (recent_underruns st) True \<and> prebuffer_ms st < 200) \<longrightarrow>
          prebuffer_ms st' = prebuffer_ms st)
     \<and> (5 \<le> length (recent_metrics st) \<longrightarrow>
          percentile (map synthesis_latency_ms (last_five (recent_metrics st))) (95 / 100) =
            Inr (p95_of_five (map synthesis_latency_ms (last_five (recent_metrics st)))))
     \<and> (5 \<le> length (recent_metrics st)
          \<and> 600 < p95_of_five (map synthesis_latency_ms (last_five (recent_metrics st)))
          \<and> 80 < chunk_max_chars st \<longrightarrow>
          chunk_max_chars st' = max 80 (chunk_max_chars st * 4 div 5))
     \<and> (\<not> (5 \<le> length (recent_metrics st)
             \<and> 600 < p95_of_five (map synthesis_latency_ms (last_five (recent_metrics st)))
             \<and> 80 < chunk_max_chars st) \<longrightarrow>
          chunk_max_chars st' = chunk_max_chars st)
     \<and> chunk_max_chars st' \<le> chunk_max_chars st"
proof -
  let ?p = "if 2 < count_list (recent_underruns st) True \<and> prebuffer_ms st < 200
            then min 200 (prebuffer_ms st + 20) else prebuffer_ms st"
  let ?c = "if 5 \<le> length (recent_metrics st)
               \<and> 600 < p95_of_five (map synthesis_latency_ms (last_five (recent_metrics st)))
               \<and> 80 < chunk_max_chars st
            then max 80 (chunk_max_chars st * 4 div 5) else chunk_max_chars st"
  let ?st = "st\<lparr>prebuffer_ms := ?p, chunk_max_chars := ?c\<rparr>"
  have ap: "apply_adaptive_logic st = Inr ?st" by (rule apply_adaptive_logic_closed)
  have p: "prebuffer_ms ?st = ?p" and c: "chunk_max_chars ?st = ?c" by simp_all
  have p1: "2 < count_list (recent_underruns st) True \<and> prebuffer_ms st < 200 \<longrightarrow>
          ?p = min 200 (prebuffer_ms st + 20) \<and> prebuffer_ms st < ?p \<and> ?p \<le> 200"
    by (simp add: min_def)
  have p2: "2 < count_list (recent_underruns st) True \<and> prebuffer_ms st \<le> 180 \<longrightarrow>
          ?p = prebuffer_ms st + 20"
    by (simp add: min_def)
  have p3: "\<not> (2 < count_list (recent_underruns st) True \<and> prebuffer_ms st < 200) \<longrightarrow>
          ?p = prebuffer_ms st"
    by simp
  have q: "5 \<le> length (recent_metrics st) \<longrightarrow>
          percentile (map synthesis_latency_ms (last_five (recent_metrics st))) (95 / 100) =
            Inr (p95_of_five (map synthesis_latency_ms (last_five (recent_metrics st))))"
    by (intro impI percentile_five) (simp add: length_last_five)
  have c1: "5 \<le> length (recent_metrics st)
          \<and> 600 < p95_of_five (map synthesis_latency_ms (last_five (recent_metrics st)))
          \<and> 80 < chunk_max_chars st \<longrightarrow> ?c = max 80 (chunk_max_chars st * 4 div 5)"
    by simp
  have c2: "\<not> (5 \<le> length (recent_metrics st)
             \<and> 600 < p95_of_five (map synthesis_latency_ms (last_five (recent_metrics st)))
             \<and> 80 < chunk_max_chars st) \<longrightarrow> ?c = chunk_max_chars st"
    by simp
  have "80 < chunk_max_chars st \<Longrightarrow> max 80 (chunk_max_chars st * 4 div 5) \<le> chunk_max_chars st"
    by arith
  then have c3: "?c \<le> chunk_max_chars st" by simp
  show ?thesis
    apply (rule exI [of _ ?st])
    unfolding p c
    using ap p1 p2 p3 q c1 c2 c3 by (intro conjI)
qed

lemma hot_p95:
  "p95_of_five (map synthesis_latency_ms (last_five (recent_metrics hot_controller))) = 1000"
  by code_simp

lemma hot_facts:
  "2 < count_list (recent_underruns hot_controller) True"
  "prebuffer_ms hot_controller = 190" "chunk_max_chars hot_controller = 102"
  "length (recent_metrics hot_controller) = 5"
  by (simp_all add: hot_controller_def new_controller_def)

theorem adaptive_step_witness:
  "2 < count_list (recent_underruns hot_controller) True \<and> prebuffer_ms hot_controller < 200
   \<and> 5 \<le> length (recent_metrics hot_controller)
   \<and> 600 < p95_of_five (map synthesis_latency_ms (last_five (recent_metrics hot_controller)))
   \<and> 80 < chunk_max_chars hot_controller
   \<and> 2 < count_list (recent_underruns (hot_controller\<lparr>prebuffer_ms := 100\<rparr>)) True
   \<and> prebuffer_ms (hot_controller\<lparr>prebuffer_ms := 100\<rparr>) \<le> 180
   \<and> \<not> (2 < count_list (recent_underruns new_controller) True \<and> prebuffer_ms new_controller < 200)
   \<and> \<not> (5 \<le> length (recent_metrics new_controller)
          \<and> 600 < p95_of_five (map synthesis_latency_ms (last_five (recent_metrics new_controller)))
          \<and> 80 < chunk_max_chars new_controller)
   \<and> (\<exists>st'. apply_adaptive_logic hot_controller = Inr st'
          \<and> prebuffer_ms st' = 200 \<and> chunk_max_chars st' = 81)
   \<and> (\<exists>st'. apply_adaptive_logic (hot_controller\<lparr>prebuffer_ms := 100\<rparr>) = Inr st'
          \<and> prebuffer_ms st' = 120)
   \<and> (\<exists>st'. apply_adaptive_logic new_controller = Inr st'
          \<and> prebuffer_ms st' = 80 \<and> chunk_max_chars st' = 200)"
proof -
  have n: "recent_underruns new_controller = []" "recent_metrics new_controller = []"
          "prebuffer_ms new_controller = 80" "chunk_max_chars new_controller = 200"
    by (simp_all add: new_controller_def)
  have h2: "2 < count_list (recent_underruns (hot_controller\<lparr>prebuffer_ms := 100\<rparr>)) True"
    using hot_facts(1) by simp
  have a: "\<exists>st'. apply_adaptive_logic hot_controller = Inr st'
          \<and> prebuffer_ms st' = 200 \<and> chunk_max_chars st' = 81"
    using adaptive_step [of hot_controller] hot_facts hot_p95 by auto
  have b: "\<exists>st'. apply_adaptive_logic (hot_controller\<lparr>prebuffer_ms := 100\<rparr>) = Inr st'
          \<and> prebuffer_ms st' = 120"
    using adaptive_step [of "hot_controller\<lparr>prebuffer_ms := 100\<rparr>"] h2 by auto
  have c: "\<exists>st'. apply_adaptive_logic new_controller = Inr st'
          \<and> prebuffer_ms st' = 80 \<and> chunk_max_chars st' = 200"
    using adaptive_step [of new_controller] n by auto
  show ?thesis
    using a b c hot_facts hot_p95 h2 n by simp
qed

text \<open>
  Claim C4 as stated fails twice on a state the defaults reach. With a prebuffer of
  190 ms the increase is to 200 ms, which is 10 ms and not 20; and from a maximum chunk
  length of 102 the step goes to 81, the truncation of 81.6, where
  \<open>max(80, round(102 * 0.8))\<close> is 82.
\<close>

theorem adaptive_step_counterexample:
  "2 < count_list (recent_underruns hot_controller) True \<and> prebuffer_ms hot_controller = 190
   \<and> length (recent_metrics hot_controller) = 5
   \<and> 600 < p95_of_five (map synthesis_latency_ms (last_five (recent_metrics hot_controller)))
   \<and> chunk_max_chars hot_controller = 102
   \<and> apply_adaptive_logic hot_controller =
        Inr (hot_controller\<lparr>prebuffer_ms := 200, chunk_max_chars := 81\<rparr>)
   \<and> max 80 (round ((102::rat) * (8 / 10))) = 82"
proof -
  have r: "round ((102::rat) * (8 / 10)) = 82"
    unfolding round_def by (rule floor_unique) simp_all
  have "apply_adaptive_logic hot_controller =
        Inr (hot_controller\<lparr>prebuffer_ms := 200, chunk_max_chars := 81\<rparr>)"
    unfolding apply_adaptive_logic_closed using hot_facts hot_p95 by simp
  then show ?thesis using hot_facts hot_p95 r by simp
qed

end
